theory Spec2Isabelle
  imports Complex_Main "HOL-Library.Sublist"
begin

section \<open>The Redis server behind \<open>redisClient.js\<close>\<close>

text \<open>
  The counters live in a Redis server reached through \<open>ioredis\<close>. A key holds an integer
  (the only values \<open>INCR\<close> and \<open>INCRBY\<close> write) and an optional expiry, kept as the
  absolute time in milliseconds at which the key stops being readable. A command that
  cannot be served (connection lost, retries exhausted) rejects its promise, so the
  \<open>await\<close> throws: the only error value is \<open>StoreUnavailable\<close>.

  \<open>faults\<close> is the fate of the commands still to come, in the order they are issued:
  \<open>True\<close> means that command fails. The empty list is a healthy server.
\<close>

datatype error = StoreUnavailable

record entry =
  val :: int
  deadline :: "nat option"

type_synonym keyspace = "string \<rightharpoonup> entry"

record redis =
  kv :: keyspace
  faults :: "bool list"

text \<open>An \<open>async\<close> function: it runs on the server state and either throws or returns.\<close>

type_synonym 'a io = "redis \<Rightarrow> (error + 'a) \<times> redis"

definition return_io :: "'a \<Rightarrow> 'a io" where
  "return_io a r = (Inr a, r)"

definition bind_io :: "'a io \<Rightarrow> ('a \<Rightarrow> 'b io) \<Rightarrow> 'b io" where
  "bind_io m f r = (case m r of (Inl e, r') \<Rightarrow> (Inl e, r') | (Inr a, r') \<Rightarrow> f a r')"

definition catch_io :: "'a io \<Rightarrow> (error \<Rightarrow> 'a io) \<Rightarrow> 'a io" where
  "catch_io m h r = (case m r of (Inl e, r') \<Rightarrow> h e r' | (Inr a, r') \<Rightarrow> (Inr a, r'))"

definition command :: "(keyspace \<Rightarrow> 'a \<times> keyspace) \<Rightarrow> 'a io" where
  "command f r =
     (case faults r of
        [] \<Rightarrow> (case f (kv r) of (a, m) \<Rightarrow> (Inr a, r\<lparr>kv := m\<rparr>))
      | True # rest \<Rightarrow> (Inl StoreUnavailable, r\<lparr>faults := rest\<rparr>)
      | False # rest \<Rightarrow> (case f (kv r) of (a, m) \<Rightarrow> (Inr a, r\<lparr>kv := m, faults := rest\<rparr>)))"

text \<open>A key whose expiry has passed is gone for every command.\<close>

definition lookup :: "nat \<Rightarrow> keyspace \<Rightarrow> string \<Rightarrow> entry option" where
  "lookup now m k =
     (case m k of
        None \<Rightarrow> None
      | Some e \<Rightarrow> (case deadline e of
                    None \<Rightarrow> Some e
                  | Some d \<Rightarrow> if now < d then Some e else None))"

definition redis_get :: "nat \<Rightarrow> string \<Rightarrow> int option io" where
  "redis_get now k = command (\<lambda>m. (map_option val (lookup now m k), m))"

definition redis_incrby :: "nat \<Rightarrow> string \<Rightarrow> int \<Rightarrow> int io" where
  "redis_incrby now k n =
     command (\<lambda>m. case lookup now m k of
                     None \<Rightarrow> (n, m(k \<mapsto> \<lparr>val = n, deadline = None\<rparr>))
                   | Some e \<Rightarrow> (val e + n, m(k \<mapsto> e\<lparr>val := val e + n\<rparr>)))"

definition redis_incr :: "nat \<Rightarrow> string \<Rightarrow> int io" where
  "redis_incr now k = redis_incrby now k 1"

definition redis_expire :: "nat \<Rightarrow> string \<Rightarrow> nat \<Rightarrow> int io" where
  "redis_expire now k ttl =
     command (\<lambda>m. case lookup now m k of
                     None \<Rightarrow> (0, m)
                   | Some e \<Rightarrow> (1, m(k \<mapsto> e\<lparr>deadline := Some (now + ttl * 1000)\<rparr>)))"

section \<open>Counter primitives of \<open>redisClient.js\<close>\<close>

text \<open>
  \<^verbatim>\<open>const current = await redis.incr(key);
  if (current === 1) { await redis.expire(key, ttl); }
  return current;\<close>
\<close>

definition incrementCounter :: "nat \<Rightarrow> string \<Rightarrow> nat \<Rightarrow> int io" where
  "incrementCounter now key ttl =
     bind_io (redis_incr now key) (\<lambda>current.
       if current = 1
       then bind_io (redis_expire now key ttl) (\<lambda>_. return_io current)
       else return_io current)"

text \<open>
  \<^verbatim>\<open>const value = await redis.get(key);
  return value ? parseInt(value, 10) : 0;\<close>
  The reply is the decimal text of the stored integer, which is never the empty string,
  or \<open>null\<close>. \<open>parseInt\<close> gives a double, which is the stored integer itself when its
  magnitude is below \<open>2^53\<close>; the counters of the ledger, raised by one per request and by
  the tokens of one response at a time, stay far below that, and the model returns the
  stored integer. A statement about \<open>getCounter\<close> on an arbitrary key carries the bound.
\<close>

definition getCounter :: "nat \<Rightarrow> string \<Rightarrow> int io" where
  "getCounter now key =
     bind_io (redis_get now key) (\<lambda>value.
       return_io (case value of Some v \<Rightarrow> v | None \<Rightarrow> 0))"

section \<open>Time buckets and keys\<close>

text \<open>
  What \<open>new Date()\<close> gives a call: the clock in milliseconds and the UTC fields the
  template strings read (\<open>getUTCMonth\<close> counts from 0). A call reads the clock once, and
  the server serves every command of the call at that clock.
\<close>

record instant =
  epoch_ms :: nat
  utcFullYear :: nat
  utcMonth :: nat
  utcDate :: nat
  utcHours :: nat
  utcMinutes :: nat

fun show_nat :: "nat \<Rightarrow> string" where
  "show_nat n =
     (if n < 10 then [''0123456789'' ! n]
      else show_nat (n div 10) @ [''0123456789'' ! (n mod 10)])"

declare show_nat.simps [simp del]

definition day :: "instant \<Rightarrow> string" where
  "day t = show_nat (utcFullYear t) @ ''-'' @ show_nat (utcMonth t) @ ''-'' @ show_nat (utcDate t)"

definition minute :: "instant \<Rightarrow> string" where
  "minute t =
     show_nat (utcFullYear t) @ ''-'' @ show_nat (utcMonth t) @ ''-'' @ show_nat (utcDate t)
       @ ''-'' @ show_nat (utcHours t) @ ''-'' @ show_nat (utcMinutes t)"

definition globalRpmKey :: "instant \<Rightarrow> string" where
  "globalRpmKey t = ''global:rpm:'' @ minute t"

definition globalRpdKey :: "instant \<Rightarrow> string" where
  "globalRpdKey t = ''global:rpd:'' @ day t"

definition globalTpmKey :: "instant \<Rightarrow> string" where
  "globalTpmKey t = ''global:tpm:'' @ minute t"

definition globalTpdKey :: "instant \<Rightarrow> string" where
  "globalTpdKey t = ''global:tpd:'' @ day t"

definition userRpdKey :: "string \<Rightarrow> instant \<Rightarrow> string" where
  "userRpdKey userId t = ''user:rpd:'' @ userId @ '':'' @ day t"

definition userTpdKey :: "string \<Rightarrow> instant \<Rightarrow> string" where
  "userTpdKey userId t = ''user:tpd:'' @ userId @ '':'' @ day t"

section \<open>Configuration and results\<close>

text \<open>
  \<open>process.env\<close>: a variable is unset (\<open>None\<close>) or holds an integer. The source reads the
  limits with \<open>parseInt(process.env.X || 'default', 10)\<close> and the threshold percentage with
  \<open>parseFloat\<close>. A percentage with a fraction, such as \<open>0.7\<close> or \<open>66.6\<close>, is outside this
  model: see \<open>FALLBACK_THRESHOLD\<close>.
\<close>

record env =
  RATE_LIMIT_RPM :: "int option"
  RATE_LIMIT_RPD :: "int option"
  RATE_LIMIT_TPM :: "int option"
  RATE_LIMIT_TPD :: "int option"
  FALLBACK_THRESHOLD_PERCENT :: "int option"

definition env_or :: "'a option \<Rightarrow> 'a \<Rightarrow> 'a" where
  "env_or v dflt = (case v of None \<Rightarrow> dflt | Some x \<Rightarrow> x)"

record quota4 =
  rpm :: int
  rpd :: int
  tpm :: int
  tpd :: int

record quota6 = quota4 +
  userRpd :: int
  userTpd :: int

text \<open>\<open>{ usage, limits }\<close> of \<open>getQuotaStatus\<close>; an admission result adds \<open>allowed\<close> and \<open>reason\<close>.\<close>

record status =
  usage :: quota6
  limits :: quota6

record admission = status +
  allowed :: bool
  reason :: "string option"

text \<open>\<open>{ success: true }\<close> or \<open>{ success: false, error: error.message }\<close>.\<close>

record reconciliation =
  success :: bool
  failure :: "error option"

text \<open>\<open>{ success: true, usage, limits }\<close> or \<open>{ success: false, error: '...' }\<close>.\<close>

datatype reward_reply = Rewarded quota4 quota4 | Refused string

section \<open>The quota ledger\<close>

definition globalLimits :: quota4 where
  "globalLimits = \<lparr>rpm = 30, rpd = 14400, tpm = 6000, tpd = 500000\<rparr>"

definition userLimits_rpd :: "env \<Rightarrow> int" where
  "userLimits_rpd e = env_or (RATE_LIMIT_RPD e) 50"

definition userLimits_tpd :: "env \<Rightarrow> int" where
  "userLimits_tpd e = env_or (RATE_LIMIT_TPD e) 20000"

text \<open>\<open>{ ...globalLimits, userRpd: userLimits.rpd, userTpd: userLimits.tpd }\<close>\<close>

definition limits6 :: "env \<Rightarrow> quota6" where
  "limits6 e =
     \<lparr>rpm = rpm globalLimits, rpd = rpd globalLimits, tpm = tpm globalLimits,
      tpd = tpd globalLimits, userRpd = userLimits_rpd e, userTpd = userLimits_tpd e\<rparr>"

text \<open>The six rejecting \<open>return\<close> statements differ in their \<open>reason\<close> only.\<close>

definition rejected :: "env \<Rightarrow> quota6 \<Rightarrow> string \<Rightarrow> admission" where
  "rejected e u why = \<lparr>usage = u, limits = limits6 e, allowed = False, reason = Some why\<rparr>"

definition checkAndIncrementLimits :: "env \<Rightarrow> instant \<Rightarrow> string \<Rightarrow> int \<Rightarrow> admission io" where
  "checkAndIncrementLimits e t userId tokensEstimated =
     bind_io (getCounter (epoch_ms t) (globalRpmKey t)) (\<lambda>g_rpm.
     bind_io (getCounter (epoch_ms t) (globalRpdKey t)) (\<lambda>g_rpd.
     bind_io (getCounter (epoch_ms t) (globalTpmKey t)) (\<lambda>g_tpm.
     bind_io (getCounter (epoch_ms t) (globalTpdKey t)) (\<lambda>g_tpd.
     bind_io (getCounter (epoch_ms t) (userRpdKey userId t)) (\<lambda>u_rpd.
     bind_io (getCounter (epoch_ms t) (userTpdKey userId t)) (\<lambda>u_tpd.
       let u = \<lparr>rpm = g_rpm, rpd = g_rpd, tpm = g_tpm, tpd = g_tpd,
                userRpd = u_rpd, userTpd = u_tpd\<rparr>
       in
       if g_rpm \<ge> rpm globalLimits then
         return_io (rejected e u ''Global requests per minute limit exceeded (Groq API)'')
       else if g_rpd \<ge> rpd globalLimits then
         return_io (rejected e u ''Global requests per day limit exceeded (Groq API)'')
       else if g_tpm + tokensEstimated > tpm globalLimits then
         return_io (rejected e u ''Global tokens per minute limit exceeded (Groq API)'')
       else if g_tpd + tokensEstimated > tpd globalLimits then
         return_io (rejected e u ''Global tokens per day limit exceeded (Groq API - 500K/day)'')
       else if u_rpd \<ge> userLimits_rpd e then
         return_io (rejected e u ''User requests per day limit exceeded (Your App Quota)'')
       else if u_tpd + tokensEstimated > userLimits_tpd e then
         return_io (rejected e u ''User tokens per day limit exceeded (Your App Quota)'')
       else
         bind_io (incrementCounter (epoch_ms t) (globalRpmKey t) 60) (\<lambda>_.
         bind_io (incrementCounter (epoch_ms t) (globalRpdKey t) 86400) (\<lambda>_.
         bind_io (incrementCounter (epoch_ms t) (userRpdKey userId t) 86400) (\<lambda>_.
           return_io
             \<lparr>usage = \<lparr>rpm = g_rpm + 1, rpd = g_rpd + 1, tpm = g_tpm, tpd = g_tpd,
                        userRpd = u_rpd + 1, userTpd = u_tpd\<rparr>,
              limits = limits6 e, allowed = True, reason = None\<rparr>)))))))))"

definition getQuotaStatus :: "env \<Rightarrow> instant \<Rightarrow> string \<Rightarrow> status io" where
  "getQuotaStatus e t userId =
     bind_io (getCounter (epoch_ms t) (globalRpmKey t)) (\<lambda>g_rpm.
     bind_io (getCounter (epoch_ms t) (globalRpdKey t)) (\<lambda>g_rpd.
     bind_io (getCounter (epoch_ms t) (globalTpmKey t)) (\<lambda>g_tpm.
     bind_io (getCounter (epoch_ms t) (globalTpdKey t)) (\<lambda>g_tpd.
     bind_io (getCounter (epoch_ms t) (userRpdKey userId t)) (\<lambda>u_rpd.
     bind_io (getCounter (epoch_ms t) (userTpdKey userId t)) (\<lambda>u_tpd.
       return_io
         \<lparr>usage = \<lparr>rpm = g_rpm, rpd = g_rpd, tpm = g_tpm, tpd = g_tpd,
                    userRpd = u_rpd, userTpd = u_tpd\<rparr>,
          limits = limits6 e\<rparr>))))))"

section \<open>The usage reconciler\<close>

text \<open>The whole body sits in \<open>try { ... } catch (error) { return { success: false, ... } }\<close>.\<close>

definition recordActualTokenUsage :: "instant \<Rightarrow> string \<Rightarrow> int \<Rightarrow> reconciliation io" where
  "recordActualTokenUsage t userId actualTokensUsed =
     catch_io
       (bind_io (redis_incrby (epoch_ms t) (globalTpmKey t) actualTokensUsed) (\<lambda>_.
        bind_io (redis_incrby (epoch_ms t) (globalTpdKey t) actualTokensUsed) (\<lambda>_.
        bind_io (redis_incrby (epoch_ms t) (userTpdKey userId t) actualTokensUsed) (\<lambda>_.
        bind_io (redis_expire (epoch_ms t) (globalTpmKey t) 60) (\<lambda>_.
        bind_io (redis_expire (epoch_ms t) (globalTpdKey t) 86400) (\<lambda>_.
        bind_io (redis_expire (epoch_ms t) (userTpdKey userId t) 86400) (\<lambda>_.
          return_io \<lparr>success = True, failure = None\<rparr>)))))))
       (\<lambda>err. return_io \<lparr>success = False, failure = Some err\<rparr>)"

section \<open>Ad rewards\<close>

definition rewardKey :: "instant \<Rightarrow> string \<Rightarrow> string \<Rightarrow> string option" where
  "rewardKey t userId rewardType =
     (if rewardType = ''tokens'' then Some (''tpd:'' @ userId @ '':'' @ day t)
      else if rewardType = ''requests'' then Some (''rpd:'' @ userId @ '':'' @ day t)
      else None)"

definition incrementRewardQuota ::
  "env \<Rightarrow> instant \<Rightarrow> string \<Rightarrow> string \<Rightarrow> string \<Rightarrow> int \<Rightarrow> reward_reply io" where
  "incrementRewardQuota e t userId module' rewardType amount =
     (case rewardKey t userId rewardType of
        None \<Rightarrow> return_io (Refused ''Invalid rewardType'')
      | Some key \<Rightarrow>
          bind_io (redis_incrby (epoch_ms t) key amount) (\<lambda>_.
          bind_io (getCounter (epoch_ms t) (''rpm:'' @ userId @ '':'' @ minute t)) (\<lambda>u_rpm.
          bind_io (getCounter (epoch_ms t) (''rpd:'' @ userId @ '':'' @ day t)) (\<lambda>u_rpd.
          bind_io (getCounter (epoch_ms t) (''tpm:'' @ userId @ '':'' @ minute t)) (\<lambda>u_tpm.
          bind_io (getCounter (epoch_ms t) (''tpd:'' @ userId @ '':'' @ day t)) (\<lambda>u_tpd.
            return_io
              (Rewarded \<lparr>rpm = u_rpm, rpd = u_rpd, tpm = u_tpm, tpd = u_tpd\<rparr>
                        \<lparr>rpm = env_or (RATE_LIMIT_RPM e) 30, rpd = env_or (RATE_LIMIT_RPD e) 10,
                         tpm = env_or (RATE_LIMIT_TPM e) 6000,
                         tpd = env_or (RATE_LIMIT_TPD e) 20000\<rparr>)))))))"

section \<open>The model selector of \<open>modelRouter.js\<close>\<close>

definition MODELS_default :: string where
  "MODELS_default = ''llama-3.1-8b-instant''"

definition MODELS_fallback :: string where
  "MODELS_fallback = ''compound-mini''"

text \<open>
  \<open>parseFloat(process.env.FALLBACK_THRESHOLD_PERCENT || '70') / 100\<close>, a double, which the
  source compares with the double quotients \<open>usage / limit\<close>. For an integer percentage
  \<open>p\<close> and integer counters the doubles compare as the rationals do: \<open>p / 100\<close> and
  \<open>usage / limit\<close> are each rounded once, so equal rationals give equal doubles, and unequal
  ones differ by at least \<open>1 / (100 * limit)\<close>, with the limits 30 and 500000 far more than
  a rounding error; the recovery threshold 0.5 is a double itself. The threshold and the
  fractions are therefore kept as exact rationals. With a fractional percentage the
  double \<open>parseFloat(p) / 100\<close> can fall below the rational \<open>p / 100\<close> (0.7 / 100 is
  0.006999999999999999), which is why the configuration holds integer percentages only.
\<close>

definition FALLBACK_THRESHOLD :: "env \<Rightarrow> rat" where
  "FALLBACK_THRESHOLD e = rat_of_int (env_or (FALLBACK_THRESHOLD_PERCENT e) 70) / 100"

definition FALLBACK_DURATION_MS :: nat where
  "FALLBACK_DURATION_MS = 5 * 60 * 1000"

text \<open>The module: its Redis connection and \<open>let fallbackModeUntil = null\<close>.\<close>

record process =
  store :: redis
  fallbackModeUntil :: "nat option"

text \<open>\<open>fallbackModeUntil && now < fallbackModeUntil\<close>: \<open>null\<close> and 0 are falsy.\<close>

definition holding :: "nat option \<Rightarrow> nat \<Rightarrow> bool" where
  "holding until now = (case until of None \<Rightarrow> False | Some d \<Rightarrow> d \<noteq> 0 \<and> now < d)"

text \<open>\<open>preferredModel || MODELS.default\<close>, the parameter defaulting to \<open>MODELS.default\<close>.\<close>

definition preferred_or_default :: "string option \<Rightarrow> string" where
  "preferred_or_default preferredModel =
     (case preferredModel of
        None \<Rightarrow> MODELS_default
      | Some m \<Rightarrow> if m = [] then MODELS_default else m)"

definition selectModel ::
  "env \<Rightarrow> instant \<Rightarrow> string \<Rightarrow> string option \<Rightarrow> process \<Rightarrow> (error + string) \<times> process" where
  "selectModel e t userId preferredModel p =
     (case getQuotaStatus e t userId (store p) of
        (Inl err, r) \<Rightarrow> (Inl err, p\<lparr>store := r\<rparr>)
      | (Inr st, r) \<Rightarrow>
          let p1 = p\<lparr>store := r\<rparr>; now = epoch_ms t in
          if holding (fallbackModeUntil p1) now then (Inr MODELS_fallback, p1)
          else
            let tpdPercent = rat_of_int (tpd (usage st)) / rat_of_int (tpd (limits st));
                rpmPercent = rat_of_int (rpm (usage st)) / rat_of_int (rpm (limits st))
            in
            if tpdPercent > FALLBACK_THRESHOLD e \<or> rpmPercent > FALLBACK_THRESHOLD e then
              (Inr MODELS_fallback, p1\<lparr>fallbackModeUntil := Some (now + FALLBACK_DURATION_MS)\<rparr>)
            else
              (Inr (preferred_or_default preferredModel),
               if tpdPercent < 1 / 2 \<and> rpmPercent < 1 / 2
               then p1\<lparr>fallbackModeUntil := None\<rparr> else p1))"

section \<open>Vocabulary of the specification\<close>

text \<open>
  The rest of the definitions state properties; none of them is code of the repository.
  \<open>failing\<close> tells whether the next command fails and \<open>next_cmd\<close> moves past it.
\<close>

definition failing :: "redis \<Rightarrow> bool" where
  "failing r = (case faults r of [] \<Rightarrow> False | b # _ \<Rightarrow> b)"

definition next_cmd :: "redis \<Rightarrow> redis" where
  "next_cmd r = r\<lparr>faults := tl (faults r)\<rparr>"

text \<open>A computation that leaves key \<open>k\<close> as it is, whatever its outcome.\<close>

definition keeps :: "string \<Rightarrow> 'a io \<Rightarrow> bool" where
  "keeps k m = (\<forall>r. kv (snd (m r)) k = kv r k)"

text \<open>
  A computation that uses up exactly the fates of the commands it issues: it returns when
  none of them failed, and throws \<open>StoreUnavailable\<close> at the first that did.
\<close>

definition metered :: "'a io \<Rightarrow> bool" where
  "metered m =
     (\<forall>r. \<exists>used. faults r = used @ faults (snd (m r)) \<and>
        (case fst (m r) of
           Inl err \<Rightarrow> err = StoreUnavailable \<and> used \<noteq> [] \<and> last used \<and> True \<notin> set (butlast used)
         | Inr a \<Rightarrow> True \<notin> set used))"

text \<open>The usage of a counter: what a successful \<open>getCounter\<close> reports for the key.\<close>

definition reading :: "nat \<Rightarrow> keyspace \<Rightarrow> string \<Rightarrow> int" where
  "reading now m k = (case lookup now m k of None \<Rightarrow> 0 | Some e \<Rightarrow> val e)"

text \<open>The expiry a key carries through an \<open>INCRBY\<close>: none when the command creates it.\<close>

definition carried :: "nat \<Rightarrow> keyspace \<Rightarrow> string \<Rightarrow> nat option" where
  "carried now m k = (case lookup now m k of None \<Rightarrow> None | Some x \<Rightarrow> deadline x)"

text \<open>The usage snapshot of an identity at an instant.\<close>

definition snapshot :: "instant \<Rightarrow> string \<Rightarrow> keyspace \<Rightarrow> quota6" where
  "snapshot t userId m =
     \<lparr>rpm = reading (epoch_ms t) m (globalRpmKey t),
      rpd = reading (epoch_ms t) m (globalRpdKey t),
      tpm = reading (epoch_ms t) m (globalTpmKey t),
      tpd = reading (epoch_ms t) m (globalTpdKey t),
      userRpd = reading (epoch_ms t) m (userRpdKey userId t),
      userTpd = reading (epoch_ms t) m (userTpdKey userId t)\<rparr>"

text \<open>
  The selector's load fractions, global scope: \<open>tpd_usage / tpd_limit\<close> and
  \<open>rpm_usage / rpm_limit\<close>, with the limits \<open>getQuotaStatus\<close> reports.
\<close>

definition tpdFraction :: "instant \<Rightarrow> keyspace \<Rightarrow> rat" where
  "tpdFraction t m = rat_of_int (reading (epoch_ms t) m (globalTpdKey t)) / 500000"

definition rpmFraction :: "instant \<Rightarrow> keyspace \<Rightarrow> rat" where
  "rpmFraction t m = rat_of_int (reading (epoch_ms t) m (globalRpmKey t)) / 30"

text \<open>
  The specification's precedence: an ordered list of dimensions, each with its test,
  evaluated in sequence with short circuit.
\<close>

datatype dimension = GlobalRpm | GlobalRpd | GlobalTpm | GlobalTpd | IdentityRpd | IdentityTpd

fun exceeded :: "quota6 \<Rightarrow> quota6 \<Rightarrow> int \<Rightarrow> dimension \<Rightarrow> bool" where
  "exceeded u l estimate GlobalRpm = (rpm u \<ge> rpm l)"
| "exceeded u l estimate GlobalRpd = (rpd u \<ge> rpd l)"
| "exceeded u l estimate GlobalTpm = (tpm u + estimate > tpm l)"
| "exceeded u l estimate GlobalTpd = (tpd u + estimate > tpd l)"
| "exceeded u l estimate IdentityRpd = (userRpd u \<ge> userRpd l)"
| "exceeded u l estimate IdentityTpd = (userTpd u + estimate > userTpd l)"

definition precedence :: "dimension list" where
  "precedence = [GlobalRpm, GlobalRpd, GlobalTpm, GlobalTpd, IdentityRpd, IdentityTpd]"

definition first_failing :: "quota6 \<Rightarrow> quota6 \<Rightarrow> int \<Rightarrow> dimension option" where
  "first_failing u l estimate = find (exceeded u l estimate) precedence"

fun reason_text :: "dimension \<Rightarrow> string" where
  "reason_text GlobalRpm = ''Global requests per minute limit exceeded (Groq API)''"
| "reason_text GlobalRpd = ''Global requests per day limit exceeded (Groq API)''"
| "reason_text GlobalTpm = ''Global tokens per minute limit exceeded (Groq API)''"
| "reason_text GlobalTpd = ''Global tokens per day limit exceeded (Groq API - 500K/day)''"
| "reason_text IdentityRpd = ''User requests per day limit exceeded (Your App Quota)''"
| "reason_text IdentityTpd = ''User tokens per day limit exceeded (Your App Quota)''"

text \<open>Successive \<open>incrementCounter\<close> calls on one key, each with its clock and its \<open>ttl\<close>.\<close>

fun incrementAll :: "(nat \<times> nat) list \<Rightarrow> string \<Rightarrow> redis \<Rightarrow> redis" where
  "incrementAll [] k r = r"
| "incrementAll ((now, ttl) # calls) k r = incrementAll calls k (snd (incrementCounter now k ttl r))"

text \<open>
  Sequential calls share the connection: each runs on the state the previous one left,
  whether it returned or threw.
\<close>

fun admit_all :: "env \<Rightarrow> (instant \<times> string \<times> int) list \<Rightarrow> redis \<Rightarrow> redis" where
  "admit_all e [] r = r"
| "admit_all e ((t, userId, estimate) # calls) r =
     admit_all e calls (snd (checkAndIncrementLimits e t userId estimate r))"

fun reward_all ::
  "env \<Rightarrow> (instant \<times> string \<times> string \<times> string \<times> int) list \<Rightarrow> redis \<Rightarrow> redis" where
  "reward_all e [] r = r"
| "reward_all e ((t, userId, module', rewardType, amount) # calls) r =
     reward_all e calls (snd (incrementRewardQuota e t userId module' rewardType amount r))"

datatype query = Admit instant string int | Status instant string

datatype answer = Admission "error + admission" | Report "error + status"

fun ask :: "env \<Rightarrow> query list \<Rightarrow> redis \<Rightarrow> answer list" where
  "ask e [] r = []"
| "ask e (Admit t userId estimate # qs) r =
     (case checkAndIncrementLimits e t userId estimate r of
        (res, r') \<Rightarrow> Admission res # ask e qs r')"
| "ask e (Status t userId # qs) r =
     (case getQuotaStatus e t userId r of (res, r') \<Rightarrow> Report res # ask e qs r')"

text \<open>The keys an admission or a status call touches, and the keys a reward call can write.\<close>

definition ledger_keys :: "instant \<Rightarrow> string \<Rightarrow> string set" where
  "ledger_keys t userId =
     {globalRpmKey t, globalRpdKey t, globalTpmKey t, globalTpdKey t,
      userRpdKey userId t, userTpdKey userId t}"

definition reward_keys :: "instant \<Rightarrow> string \<Rightarrow> string set" where
  "reward_keys t userId = {''rpd:'' @ userId @ '':'' @ day t, ''tpd:'' @ userId @ '':'' @ day t}"

text \<open>
  Keys in the reward namespace, two stores that differ in that namespace only, and a
  computation that cannot tell such stores apart.
\<close>

definition reward_key :: "string \<Rightarrow> bool" where
  "reward_key k = (prefix ''rpd:'' k \<or> prefix ''tpd:'' k)"

definition same_ledger :: "redis \<Rightarrow> redis \<Rightarrow> bool" where
  "same_ledger r1 r2 = (faults r1 = faults r2 \<and> (\<forall>k. \<not> reward_key k \<longrightarrow> kv r1 k = kv r2 k))"

definition blind :: "'a io \<Rightarrow> bool" where
  "blind m =
     (\<forall>r1 r2. same_ledger r1 r2 \<longrightarrow>
        fst (m r1) = fst (m r2) \<and> same_ledger (snd (m r1)) (snd (m r2)))"

text \<open>The ceiling of a request-count counter, read off its key; no ceiling for other keys.\<close>

definition request_limit :: "env \<Rightarrow> string \<Rightarrow> int option" where
  "request_limit e k =
     (if prefix ''global:rpm:'' k then Some (rpm globalLimits)
      else if prefix ''global:rpd:'' k then Some (rpd globalLimits)
      else if prefix ''user:rpd:'' k then Some (userLimits_rpd e)
      else None)"

text \<open>Every stored request-count counter is within its ceiling.\<close>

definition bounded :: "env \<Rightarrow> keyspace \<Rightarrow> bool" where
  "bounded e m = (\<forall>k x L. m k = Some x \<longrightarrow> request_limit e k = Some L \<longrightarrow> val x \<le> L)"

text \<open>The colon-separated segments of a key, as \<open>key.split(':')\<close> gives them.\<close>

fun segments :: "string \<Rightarrow> string list" where
  "segments [] = [[]]"
| "segments (c # cs) =
     (if c = CHR '':'' then [] # segments cs
      else (case segments cs of [] \<Rightarrow> [[c]] | s # ss \<Rightarrow> (c # s) # ss))"

section \<open>Concrete inputs\<close>

text \<open>1 January 2024, 10:30:00 UTC, and 10:35:01 of the same day.\<close>

definition t0 :: instant where
  "t0 = \<lparr>epoch_ms = 1704105000000, utcFullYear = 2024, utcMonth = 0, utcDate = 1,
         utcHours = 10, utcMinutes = 30\<rparr>"

definition t5 :: instant where
  "t5 = \<lparr>epoch_ms = 1704105301000, utcFullYear = 2024, utcMonth = 0, utcDate = 1,
         utcHours = 10, utcMinutes = 35\<rparr>"

text \<open>No variable set: every default applies.\<close>

definition env0 :: env where
  "env0 = \<lparr>RATE_LIMIT_RPM = None, RATE_LIMIT_RPD = None, RATE_LIMIT_TPM = None,
           RATE_LIMIT_TPD = None, FALLBACK_THRESHOLD_PERCENT = None\<rparr>"

definition counter :: "int \<Rightarrow> entry" where
  "counter v = \<lparr>val = v, deadline = None\<rparr>"

definition fresh :: redis where
  "fresh = \<lparr>kv = Map.empty, faults = []\<rparr>"


text \<open>A deployment that allows one request per identity and day.\<close>

definition env_rpd1 :: env where
  "env_rpd1 = env0\<lparr>RATE_LIMIT_RPD := Some 1\<rparr>"

text \<open>
  A day at 55% of the global token limit. At 10:30 the minute holds 22 requests (73%);
  at 10:35 the new minute holds 16 (53%).
\<close>

definition store_1030 :: redis where
  "store_1030 =
     \<lparr>kv = [globalTpdKey t0 \<mapsto> counter 275000, globalRpmKey t0 \<mapsto> counter 22], faults = []\<rparr>"

definition store_1035 :: redis where
  "store_1035 =
     \<lparr>kv = [globalTpdKey t5 \<mapsto> counter 275000, globalRpmKey t5 \<mapsto> counter 16], faults = []\<rparr>"


text \<open>
  A live key that holds 0 with an expiry of its own, as \<open>INCRBY key 0\<close> followed by
  \<open>EXPIRE\<close> leaves it, and a live key that holds 4.
\<close>

definition idle_counter :: redis where
  "idle_counter = \<lparr>kv = [''k'' \<mapsto> \<lparr>val = 0, deadline = Some 99999\<rparr>], faults = []\<rparr>"

definition busy_counter :: redis where
  "busy_counter = \<lparr>kv = [''k'' \<mapsto> \<lparr>val = 4, deadline = Some 99999\<rparr>], faults = []\<rparr>"


section \<open>Commands, one at a time\<close>

text \<open>Whether a command fails depends on the next fate only; a healthy server never fails.\<close>

lemma kv_next_cmd [simp]: "kv (next_cmd r) = kv r"
  by (simp add: next_cmd_def)

lemma faults_next_cmd [simp]: "faults (next_cmd r) = tl (faults r)"
  by (simp add: next_cmd_def)

lemma healthy_next_cmd [simp]: "faults r = [] \<Longrightarrow> next_cmd r = r"
  by (simp add: next_cmd_def)

lemma healthy_failing [simp]: "faults r = [] \<Longrightarrow> \<not> failing r"
  by (simp add: failing_def)

lemma command_unfold:
  "command f r =
     (if failing r then (Inl StoreUnavailable, next_cmd r)
      else (Inr (fst (f (kv r))), (next_cmd r)\<lparr>kv := snd (f (kv r))\<rparr>))"
  by (simp add: command_def failing_def next_cmd_def split: list.splits bool.splits prod.splits)

lemma bind_io_assoc: "bind_io (bind_io m f) g = bind_io m (\<lambda>a. bind_io (f a) g)"
  by (rule ext) (simp add: bind_io_def split: prod.splits sum.splits)

lemma bind_io_return: "bind_io (return_io a) f = f a"
  by (rule ext) (simp add: bind_io_def return_io_def)

lemma bind_io_throws: "fst (m r) = Inl err \<Longrightarrow> bind_io m f r = (Inl err, snd (m r))"
  by (cases "m r") (simp add: bind_io_def)

lemma bind_io_continues: "fst (m r) = Inr a \<Longrightarrow> bind_io m f r = f a (snd (m r))"
  by (cases "m r") (simp add: bind_io_def)

lemma bind_io_InrE:
  assumes "bind_io m f r = (Inr b, r'')"
  obtains a r' where "m r = (Inr a, r')" and "f a r' = (Inr b, r'')"
  using assms by (auto simp add: bind_io_def split: prod.splits sum.splits)

lemma snd_bind_io_cases:
  assumes "\<And>err. fst (m r) = Inl err \<Longrightarrow> P (snd (m r))"
    and "\<And>a. fst (m r) = Inr a \<Longrightarrow> P (snd (f a (snd (m r))))"
  shows "P (snd (bind_io m f r))"
proof (cases "fst (m r)")
  case (Inl err)
  then show ?thesis using assms(1) by (simp add: bind_io_throws)
next
  case (Inr a)
  then show ?thesis using assms(2) by (simp add: bind_io_continues)
qed

lemma lookup_update:
  "lookup now (m(k \<mapsto> x)) k' =
     (if k' = k
      then (case deadline x of None \<Rightarrow> Some x | Some d \<Rightarrow> if now < d then Some x else None)
      else lookup now m k')"
  by (simp add: lookup_def)

lemma lookup_Some:
  "lookup now m k = Some x \<Longrightarrow> m k = Some x \<and> (\<forall>d. deadline x = Some d \<longrightarrow> now < d)"
  by (auto simp add: lookup_def split: option.splits if_splits)

lemma lookup_update_other: "k' \<noteq> k \<Longrightarrow> lookup now (m(k \<mapsto> x)) k' = lookup now m k'"
  by (simp add: lookup_def)

lemma lookup_update_carried:
  "lookup now (m(k \<mapsto> \<lparr>val = v, deadline = carried now m0 k0\<rparr>)) k
     = Some \<lparr>val = v, deadline = carried now m0 k0\<rparr>"
  by (auto simp add: lookup_def carried_def split: option.splits if_splits)

lemma reading_cong: "m k = m' k \<Longrightarrow> reading now m k = reading now m' k"
  by (simp add: reading_def lookup_def)

lemma reading_update_other: "k' \<noteq> k \<Longrightarrow> reading now (m(k \<mapsto> x)) k' = reading now m k'"
  by (simp add: reading_def lookup_update_other)

lemma reading_update_same:
  "now < d \<Longrightarrow> reading now (m(k \<mapsto> \<lparr>val = v, deadline = Some d\<rparr>)) k = v"
  by (simp add: reading_def lookup_def)

lemma carried_update_other: "k' \<noteq> k \<Longrightarrow> carried now (m(k \<mapsto> x)) k' = carried now m k'"
  by (simp add: carried_def lookup_update_other)

lemma entry_rebuilt: "(x :: entry)\<lparr>val := v\<rparr> = \<lparr>val = v, deadline = deadline x\<rparr>"
  by (cases x) simp

lemma bind_incrby_healthy:
  assumes "faults r = []"
  shows "bind_io (redis_incrby now k n) f r =
     f (reading now (kv r) k + n)
       (r\<lparr>kv := (kv r)(k \<mapsto> \<lparr>val = reading now (kv r) k + n, deadline = carried now (kv r) k\<rparr>)\<rparr>)"
  using assms
  by (simp add: bind_io_def redis_incrby_def command_unfold reading_def carried_def entry_rebuilt
      split: option.splits)

lemma bind_expire_healthy:
  assumes "faults r = []" and "lookup now (kv r) k = Some x"
  shows "bind_io (redis_expire now k ttl) f r =
     f 1 (r\<lparr>kv := (kv r)(k \<mapsto> \<lparr>val = val x, deadline = Some (now + ttl * 1000)\<rparr>)\<rparr>)"
  using assms
  by (cases x) (simp add: bind_io_def redis_expire_def command_unfold)

section \<open>Keys\<close>

lemma request_keys_distinct:
  "globalRpmKey t \<noteq> globalRpdKey t'" "globalRpmKey t \<noteq> userRpdKey u t'"
  "globalRpdKey t \<noteq> userRpdKey u t'"
  by (simp_all add: globalRpmKey_def globalRpdKey_def userRpdKey_def)

lemma token_keys_not_request_keys:
  "globalTpmKey t' \<notin> {globalRpmKey t, globalRpdKey t, userRpdKey u t}"
  "globalTpdKey t' \<notin> {globalRpmKey t, globalRpdKey t, userRpdKey u t}"
  "userTpdKey u' t' \<notin> {globalRpmKey t, globalRpdKey t, userRpdKey u t}"
  by (simp_all add: globalRpmKey_def globalRpdKey_def userRpdKey_def globalTpmKey_def
      globalTpdKey_def userTpdKey_def)

lemma token_keys_distinct:
  "globalTpmKey t \<noteq> globalTpdKey t'" "globalTpmKey t \<noteq> userTpdKey u t'"
  "globalTpdKey t \<noteq> userTpdKey u t'"
  "globalTpdKey t' \<noteq> globalTpmKey t" "userTpdKey u t' \<noteq> globalTpmKey t"
  "userTpdKey u t' \<noteq> globalTpdKey t"
  by (simp_all add: globalTpmKey_def globalTpdKey_def userTpdKey_def)

lemma request_limit_keys:
  "request_limit e (globalRpmKey t) = Some (rpm globalLimits)"
  "request_limit e (globalRpdKey t) = Some (rpd globalLimits)"
  "request_limit e (userRpdKey u t) = Some (userLimits_rpd e)"
  by (simp_all add: request_limit_def globalRpmKey_def globalRpdKey_def userRpdKey_def)

lemma ledger_keys_not_reward:
  "\<not> reward_key (globalRpmKey t)" "\<not> reward_key (globalRpdKey t)"
  "\<not> reward_key (globalTpmKey t)" "\<not> reward_key (globalTpdKey t)"
  "\<not> reward_key (userRpdKey u t)" "\<not> reward_key (userTpdKey u t)"
  by (simp_all add: reward_key_def globalRpmKey_def globalRpdKey_def globalTpmKey_def
      globalTpdKey_def userRpdKey_def userTpdKey_def)

lemma keys_t0:
  "globalRpmKey t0 = ''global:rpm:2024-0-1-10-30''"
  "globalRpdKey t0 = ''global:rpd:2024-0-1''"
  "globalTpmKey t0 = ''global:tpm:2024-0-1-10-30''"
  "globalTpdKey t0 = ''global:tpd:2024-0-1''"
  "userRpdKey ''u1'' t0 = ''user:rpd:u1:2024-0-1''"
  "userTpdKey ''u1'' t0 = ''user:tpd:u1:2024-0-1''"
  "userRpdKey ''u2'' t0 = ''user:rpd:u2:2024-0-1''"
  "userTpdKey ''u2'' t0 = ''user:tpd:u2:2024-0-1''"
  "epoch_ms t0 = 1704105000000"
  by (simp_all add: globalRpmKey_def globalRpdKey_def globalTpmKey_def globalTpdKey_def
      userRpdKey_def userTpdKey_def minute_def day_def t0_def show_nat.simps)

lemma keys_t5:
  "globalRpmKey t5 = ''global:rpm:2024-0-1-10-35''"
  "globalRpdKey t5 = ''global:rpd:2024-0-1''"
  "globalTpmKey t5 = ''global:tpm:2024-0-1-10-35''"
  "globalTpdKey t5 = ''global:tpd:2024-0-1''"
  "epoch_ms t5 = 1704105301000"
  by (simp_all add: globalRpmKey_def globalRpdKey_def globalTpmKey_def globalTpdKey_def
      minute_def day_def t5_def show_nat.simps)

lemma segments_plain: "CHR '':'' \<notin> set s \<Longrightarrow> segments s = [s]"
  by (induction s) auto

lemma segments_colon:
  "CHR '':'' \<notin> set a \<Longrightarrow> segments (a @ CHR '':'' # b) = a # segments b"
  by (induction a) (auto split: list.splits)

lemma digit_not_colon: "d < 10 \<Longrightarrow> CHR '':'' \<noteq> ''0123456789'' ! d"
proof -
  assume "d < 10"
  then have "d \<in> {0, 1, 2, 3, 4, 5, 6, 7, 8, 9}" by auto
  then show ?thesis by auto
qed

lemma show_nat_no_colon: "CHR '':'' \<notin> set (show_nat n)"
proof (induction n rule: show_nat.induct)
  case (1 n)
  show ?case
  proof (cases "n < 10")
    case True
    then show ?thesis by (subst show_nat.simps) (simp add: digit_not_colon)
  next
    case False
    moreover have "n mod 10 < 10" by simp
    ultimately show ?thesis
      using 1 by (subst show_nat.simps) (simp add: digit_not_colon)
  qed
qed

lemma day_no_colon: "CHR '':'' \<notin> set (day t)"
  by (simp add: day_def show_nat_no_colon)

lemma minute_no_colon: "CHR '':'' \<notin> set (minute t)"
  by (simp add: minute_def show_nat_no_colon)

lemma segments_global:
  "segments (globalRpmKey t) = [''global'', ''rpm'', minute t]"
  "segments (globalRpdKey t) = [''global'', ''rpd'', day t]"
  "segments (globalTpmKey t) = [''global'', ''tpm'', minute t]"
  "segments (globalTpdKey t) = [''global'', ''tpd'', day t]"
  by (simp_all add: globalRpmKey_def globalRpdKey_def globalTpmKey_def globalTpdKey_def
      segments_plain day_no_colon minute_no_colon)

lemma segments_user:
  assumes "CHR '':'' \<notin> set userId"
  shows "segments (userRpdKey userId t) = [''user'', ''rpd'', userId, day t]"
    and "segments (userTpdKey userId t) = [''user'', ''tpd'', userId, day t]"
  using assms
  by (simp_all add: userRpdKey_def userTpdKey_def segments_colon segments_plain day_no_colon)

text \<open>
  Claim C8, amended. A global key has three colon-separated segments, \<open>global\<close>, the
  dimension and the time bucket, with no identity segment. A per-identity key has the four
  segments \<open>user\<close>, the dimension, the identity and the day bucket, for an identity that
  contains no colon.
\<close>

theorem ledger_key_segments:
  "segments (globalRpmKey t) = [''global'', ''rpm'', minute t]
   \<and> segments (globalRpdKey t) = [''global'', ''rpd'', day t]
   \<and> segments (globalTpmKey t) = [''global'', ''tpm'', minute t]
   \<and> segments (globalTpdKey t) = [''global'', ''tpd'', day t]
   \<and> (CHR '':'' \<notin> set userId \<longrightarrow>
        segments (userRpdKey userId t) = [''user'', ''rpd'', userId, day t]
      \<and> segments (userTpdKey userId t) = [''user'', ''tpd'', userId, day t])"
  by (simp add: segments_global segments_user)

theorem ledger_key_segments_witness:
  "CHR '':'' \<notin> set ''u1''
   \<and> segments (userRpdKey ''u1'' t0) = [''user'', ''rpd'', ''u1'', ''2024-0-1'']
   \<and> segments (userTpdKey ''u1'' t0) = [''user'', ''tpd'', ''u1'', ''2024-0-1'']
   \<and> segments (globalTpmKey t0) = [''global'', ''tpm'', ''2024-0-1-10-30'']"
proof -
  have c: "CHR '':'' \<notin> set ''u1''" by simp
  have d: "day t0 = ''2024-0-1''" "minute t0 = ''2024-0-1-10-30''"
    by (simp_all add: day_def minute_def t0_def show_nat.simps)
  from ledger_key_segments [of t0 "''u1''"] c show ?thesis by (simp add: d)
qed

theorem global_key_segments_counterexample:
  "segments (globalRpmKey t0) = [''global'', ''rpm'', ''2024-0-1-10-30'']
   \<and> length (segments (globalRpmKey t0)) \<noteq> 4
   \<and> segments (globalRpmKey t0) \<noteq> [''global'', ''rpm'', '''', ''2024-0-1-10-30'']"
  by (simp add: keys_t0)

section \<open>The counter primitives\<close>

lemma getCounter_unfold:
  "getCounter now k r =
     (if failing r then (Inl StoreUnavailable, next_cmd r)
      else (Inr (reading now (kv r) k), next_cmd r))"
  by (simp add: getCounter_def redis_get_def bind_io_def return_io_def command_unfold reading_def
      split: option.splits)

lemma getCounter_healthy:
  "faults r = [] \<Longrightarrow> getCounter now k r = (Inr (reading now (kv r) k), r)"
  by (simp add: getCounter_unfold)

lemma bind_getCounter_healthy:
  "faults r = [] \<Longrightarrow> bind_io (getCounter now k) f r = f (reading now (kv r) k) r"
  by (simp add: bind_io_def getCounter_healthy)

lemma incrementCounter_create:
  assumes "faults r = []" and "lookup now (kv r) k = None"
  shows "incrementCounter now k ttl r =
           (Inr 1, r\<lparr>kv := (kv r)(k \<mapsto> \<lparr>val = 1, deadline = Some (now + ttl * 1000)\<rparr>)\<rparr>)"
  using assms
  by (simp add: incrementCounter_def redis_incr_def redis_incrby_def redis_expire_def
      bind_io_def return_io_def command_unfold lookup_def)

lemma incrementCounter_again:
  assumes "faults r = []" and "lookup now (kv r) k = Some e" and "val e \<noteq> 0"
  shows "incrementCounter now k ttl r = (Inr (val e + 1), r\<lparr>kv := (kv r)(k \<mapsto> e\<lparr>val := val e + 1\<rparr>)\<rparr>)"
  using assms
  by (simp add: incrementCounter_def redis_incr_def redis_incrby_def redis_expire_def
      bind_io_def return_io_def command_unfold)

lemma incrementAll_live:
  assumes "faults r = []" and "kv r k = Some \<lparr>val = v, deadline = Some d\<rparr>" and "v \<noteq> 0" "0 \<le> v"
    and "\<forall>c \<in> set calls. fst c < d"
  shows "kv (incrementAll calls k r) k = Some \<lparr>val = v + int (length calls), deadline = Some d\<rparr>
         \<and> faults (incrementAll calls k r) = []"
  using assms
proof (induction calls arbitrary: r v)
  case Nil
  then show ?case by simp
next
  case (Cons c calls)
  obtain now ttl where c: "c = (now, ttl)" by (cases c)
  from Cons.prems c have now: "now < d" by simp
  let ?e = "\<lparr>val = v, deadline = Some d\<rparr>"
  have look: "lookup now (kv r) k = Some ?e"
    using Cons.prems(2) now by (simp add: lookup_def)
  have step: "incrementCounter now k ttl r = (Inr (v + 1), r\<lparr>kv := (kv r)(k \<mapsto> ?e\<lparr>val := v + 1\<rparr>)\<rparr>)"
    using incrementCounter_again [OF Cons.prems(1) look, of ttl] Cons.prems(3) by simp
  let ?r' = "r\<lparr>kv := (kv r)(k \<mapsto> ?e\<lparr>val := v + 1\<rparr>)\<rparr>"
  have "kv (incrementAll calls k ?r') k = Some \<lparr>val = (v + 1) + int (length calls), deadline = Some d\<rparr>
         \<and> faults (incrementAll calls k ?r') = []"
    by (rule Cons.IH) (use Cons.prems in auto)
  then show ?case by (simp add: c step)
qed

lemma incrementCounter_idle:
  assumes "faults r = []" and "lookup now (kv r) k = Some e" and "val e = 0"
  shows "incrementCounter now k ttl r =
           (Inr 1, r\<lparr>kv := (kv r)(k \<mapsto> \<lparr>val = 1, deadline = Some (now + ttl * 1000)\<rparr>)\<rparr>)"
  using assms
  by (cases e)
     (auto simp add: incrementCounter_def redis_incr_def redis_incrby_def redis_expire_def
      bind_io_def return_io_def command_unfold lookup_def split: option.splits if_splits)

text \<open>
  Claim C9, amended. On a healthy store, \<open>incrementCounter\<close> on a key that is absent or
  expired returns 1 and leaves the key at value 1 with the expiry \<open>ttl\<close> seconds ahead;
  however many further increments follow while the key lives, each with any \<open>ttl\<close> of its
  own, the value counts the increments and the expiry is still the one the creating
  increment set. The expiry is set whenever the increment returns 1: also on a live key
  that holds 0, whose own expiry is overwritten. On a live key that holds another value
  the increment adds 1 and leaves the expiry alone. \<open>getCounter\<close> returns 0 for an absent or
  expired key and the stored integer otherwise, and changes nothing. Stored values are
  taken below \<open>2^53\<close> in magnitude, where the numbers the source handles are exact.
\<close>

theorem incrementCounter_getCounter_contract:
  assumes "faults r = []"
  shows "(lookup now (kv r) k = None \<longrightarrow>
            incrementCounter now k ttl r =
              (Inr 1, r\<lparr>kv := (kv r)(k \<mapsto> \<lparr>val = 1, deadline = Some (now + ttl * 1000)\<rparr>)\<rparr>)
            \<and> (\<forall>calls. int (length calls) < 2 ^ 53
                    \<and> (\<forall>c \<in> set calls. fst c < now + ttl * 1000) \<longrightarrow>
                 kv (incrementAll ((now, ttl) # calls) k r) k =
                   Some \<lparr>val = 1 + int (length calls), deadline = Some (now + ttl * 1000)\<rparr>))
         \<and> (\<forall>e. lookup now (kv r) k = Some e \<and> val e = 0 \<longrightarrow>
              incrementCounter now k ttl r =
                (Inr 1, r\<lparr>kv := (kv r)(k \<mapsto> \<lparr>val = 1, deadline = Some (now + ttl * 1000)\<rparr>)\<rparr>))
         \<and> (\<forall>e. lookup now (kv r) k = Some e \<and> val e \<noteq> 0 \<and> \<bar>val e\<bar> < 2 ^ 53 \<longrightarrow>
              incrementCounter now k ttl r =
                (Inr (val e + 1), r\<lparr>kv := (kv r)(k \<mapsto> e\<lparr>val := val e + 1\<rparr>)\<rparr>))
         \<and> (lookup now (kv r) k = None \<longrightarrow> getCounter now k r = (Inr 0, r))
         \<and> (\<forall>e. lookup now (kv r) k = Some e \<and> \<bar>val e\<bar> < 2 ^ 53 \<longrightarrow>
              getCounter now k r = (Inr (val e), r))"
proof (intro conjI impI allI)
  assume absent: "lookup now (kv r) k = None"
  show first: "incrementCounter now k ttl r =
      (Inr 1, r\<lparr>kv := (kv r)(k \<mapsto> \<lparr>val = 1, deadline = Some (now + ttl * 1000)\<rparr>)\<rparr>)"
    by (rule incrementCounter_create [OF assms absent])
  fix calls :: "(nat \<times> nat) list"
  assume within: "int (length calls) < 2 ^ 53 \<and> (\<forall>c \<in> set calls. fst c < now + ttl * 1000)"
  let ?r' = "r\<lparr>kv := (kv r)(k \<mapsto> \<lparr>val = 1, deadline = Some (now + ttl * 1000)\<rparr>)\<rparr>"
  have "kv (incrementAll calls k ?r') k =
          Some \<lparr>val = 1 + int (length calls), deadline = Some (now + ttl * 1000)\<rparr>
        \<and> faults (incrementAll calls k ?r') = []"
    by (rule incrementAll_live) (use assms within in auto)
  then show "kv (incrementAll ((now, ttl) # calls) k r) k =
      Some \<lparr>val = 1 + int (length calls), deadline = Some (now + ttl * 1000)\<rparr>"
    by (simp add: first)
next
  fix e
  assume "lookup now (kv r) k = Some e \<and> val e = 0"
  then show "incrementCounter now k ttl r =
      (Inr 1, r\<lparr>kv := (kv r)(k \<mapsto> \<lparr>val = 1, deadline = Some (now + ttl * 1000)\<rparr>)\<rparr>)"
    using incrementCounter_idle [OF assms] by blast
next
  fix e
  assume "lookup now (kv r) k = Some e \<and> val e \<noteq> 0 \<and> \<bar>val e\<bar> < 2 ^ 53"
  then show "incrementCounter now k ttl r =
      (Inr (val e + 1), r\<lparr>kv := (kv r)(k \<mapsto> e\<lparr>val := val e + 1\<rparr>)\<rparr>)"
    using incrementCounter_again [OF assms] by blast
next
  assume "lookup now (kv r) k = None"
  then show "getCounter now k r = (Inr 0, r)"
    using assms by (simp add: getCounter_healthy reading_def)
next
  fix e
  assume "lookup now (kv r) k = Some e \<and> \<bar>val e\<bar> < 2 ^ 53"
  then show "getCounter now k r = (Inr (val e), r)"
    using assms by (simp add: getCounter_healthy reading_def)
qed

theorem incrementCounter_getCounter_contract_witness:
  "faults fresh = [] \<and> lookup 5 (kv fresh) ''k'' = None
   \<and> incrementCounter 5 ''k'' 60 fresh =
       (Inr 1, \<lparr>kv = [''k'' \<mapsto> \<lparr>val = 1, deadline = Some 60005\<rparr>], faults = []\<rparr>)
   \<and> int (length [(7, 60), (60004, 60 :: nat)]) < 2 ^ 53
   \<and> kv (incrementAll [(5, 60), (7, 60), (60004, 60)] ''k'' fresh) ''k''
       = Some \<lparr>val = 3, deadline = Some 60005\<rparr>
   \<and> getCounter 5 ''k'' fresh = (Inr 0, fresh)
   \<and> faults idle_counter = []
   \<and> lookup 5 (kv idle_counter) ''k'' = Some \<lparr>val = 0, deadline = Some 99999\<rparr>
   \<and> incrementCounter 5 ''k'' 60 idle_counter =
       (Inr 1, \<lparr>kv = [''k'' \<mapsto> \<lparr>val = 1, deadline = Some 60005\<rparr>], faults = []\<rparr>)
   \<and> faults busy_counter = []
   \<and> lookup 5 (kv busy_counter) ''k'' = Some \<lparr>val = 4, deadline = Some 99999\<rparr>
   \<and> \<bar>4 :: int\<bar> < 2 ^ 53
   \<and> incrementCounter 5 ''k'' 60 busy_counter =
       (Inr 5, \<lparr>kv = [''k'' \<mapsto> \<lparr>val = 5, deadline = Some 99999\<rparr>], faults = []\<rparr>)
   \<and> getCounter 5 ''k'' busy_counter = (Inr 4, busy_counter)"
proof -
  have h: "faults fresh = []" by (simp add: fresh_def)
  have a: "lookup 5 (kv fresh) ''k'' = None" by (simp add: fresh_def lookup_def)
  have w: "int (length [(7, 60), (60004, 60 :: nat)]) < 2 ^ 53
      \<and> (\<forall>c \<in> set [(7, 60), (60004, 60 :: nat)]. fst c < (5 :: nat) + 60 * 1000)"
    by simp
  note T = incrementCounter_getCounter_contract [OF h, of 5 "''k''" 60]
  note S = T [THEN conjunct1, THEN mp, OF a]
  note S1 = S [THEN conjunct1]
  note S2 = S [THEN conjunct2, THEN spec, THEN mp, OF w]
  note S3 = T [THEN conjunct2, THEN conjunct2, THEN conjunct2, THEN conjunct1, THEN mp, OF a]
  have 1: "incrementCounter 5 ''k'' 60 fresh =
       (Inr 1, \<lparr>kv = [''k'' \<mapsto> \<lparr>val = 1, deadline = Some 60005\<rparr>], faults = []\<rparr>)"
    using S1 by (simp add: fresh_def)
  have 2: "kv (incrementAll [(5, 60), (7, 60), (60004, 60)] ''k'' fresh) ''k''
       = Some \<lparr>val = 3, deadline = Some 60005\<rparr>"
    using S2 by (simp del: incrementAll.simps)
  have 3: "getCounter 5 ''k'' fresh = (Inr 0, fresh)"
    using S3 by simp
  have hi: "faults idle_counter = []" by (simp add: idle_counter_def)
  have ai: "lookup 5 (kv idle_counter) ''k'' = Some \<lparr>val = 0, deadline = Some 99999\<rparr>
      \<and> val \<lparr>val = 0, deadline = Some 99999\<rparr> = 0"
    by (simp add: idle_counter_def lookup_def)
  note I = incrementCounter_getCounter_contract [OF hi, of 5 "''k''" 60]
  note I1 = I [THEN conjunct2, THEN conjunct1, THEN spec, THEN mp, OF ai]
  have 4: "incrementCounter 5 ''k'' 60 idle_counter =
       (Inr 1, \<lparr>kv = [''k'' \<mapsto> \<lparr>val = 1, deadline = Some 60005\<rparr>], faults = []\<rparr>)"
    using I1 by (simp add: idle_counter_def)
  have hb: "faults busy_counter = []" by (simp add: busy_counter_def)
  have ab: "lookup 5 (kv busy_counter) ''k'' = Some \<lparr>val = 4, deadline = Some 99999\<rparr>
      \<and> val \<lparr>val = 4, deadline = Some 99999\<rparr> \<noteq> 0
      \<and> \<bar>val \<lparr>val = 4, deadline = Some 99999\<rparr>\<bar> < 2 ^ 53"
    by (simp add: busy_counter_def lookup_def)
  have gb: "lookup 5 (kv busy_counter) ''k'' = Some \<lparr>val = 4, deadline = Some 99999\<rparr>
      \<and> \<bar>val \<lparr>val = 4, deadline = Some 99999\<rparr>\<bar> < 2 ^ 53"
    using ab by simp
  note B = incrementCounter_getCounter_contract [OF hb, of 5 "''k''" 60]
  note B1 = B [THEN conjunct2, THEN conjunct2, THEN conjunct1, THEN spec, THEN mp, OF ab]
  note B2 = B [THEN conjunct2, THEN conjunct2, THEN conjunct2, THEN conjunct2, THEN spec,
      THEN mp, OF gb]
  have 5: "incrementCounter 5 ''k'' 60 busy_counter =
       (Inr 5, \<lparr>kv = [''k'' \<mapsto> \<lparr>val = 5, deadline = Some 99999\<rparr>], faults = []\<rparr>)"
    using B1 by (simp add: busy_counter_def)
  have 6: "getCounter 5 ''k'' busy_counter = (Inr 4, busy_counter)"
    using B2 by simp
  show ?thesis
    using h a 1 2 3 hi ai 4 hb ab 5 6 by (simp del: incrementAll.simps)
qed

theorem incrementCounter_expiry_counterexample:
  "lookup 5 (kv idle_counter) ''k'' = Some \<lparr>val = 0, deadline = Some 99999\<rparr>
   \<and> incrementCounter 5 ''k'' 60 idle_counter =
       (Inr 1, \<lparr>kv = [''k'' \<mapsto> \<lparr>val = 1, deadline = Some 60005\<rparr>], faults = []\<rparr>)
   \<and> Some 60005 \<noteq> Some (99999 :: nat)"
  by (simp add: idle_counter_def lookup_def incrementCounter_idle)

lemma incrementCounter_frame:
  "k' \<noteq> k \<Longrightarrow> kv (snd (incrementCounter now k ttl r)) k' = kv r k'"
  by (simp add: incrementCounter_def redis_incr_def redis_incrby_def redis_expire_def
      bind_io_def return_io_def command_unfold split: option.splits)

lemma incrementCounter_key:
  "kv (snd (incrementCounter now k ttl r)) k = kv r k \<or>
   (\<exists>x. kv (snd (incrementCounter now k ttl r)) k = Some x \<and> val x = reading now (kv r) k + 1)"
  by (auto simp add: incrementCounter_def redis_incr_def redis_incrby_def redis_expire_def
      bind_io_def return_io_def command_unfold reading_def lookup_update
      split: option.splits dest: lookup_Some)

lemma incrementCounter_returns:
  assumes "incrementCounter now k ttl r = (Inr c, r')" and "0 < ttl"
  shows "c = reading now (kv r) k + 1 \<and> reading now (kv r') k = c"
  using assms
  by (auto simp add: incrementCounter_def redis_incr_def redis_incrby_def redis_expire_def
      bind_io_def return_io_def command_unfold reading_def lookup_update
      split: option.splits if_splits dest: lookup_Some)

lemma incrementCounter_healthy:
  assumes "faults r = []" and "0 < ttl"
  shows "incrementCounter now k ttl r =
     (Inr (reading now (kv r) k + 1),
      r\<lparr>kv := (kv r)(k \<mapsto>
         (case lookup now (kv r) k of
            None \<Rightarrow> \<lparr>val = 1, deadline = Some (now + ttl * 1000)\<rparr>
          | Some x \<Rightarrow> if val x = 0 then x\<lparr>val := 1, deadline := Some (now + ttl * 1000)\<rparr>
                      else x\<lparr>val := val x + 1\<rparr>))\<rparr>)"
  using assms
  by (auto simp add: incrementCounter_def redis_incr_def redis_incrby_def redis_expire_def
      bind_io_def return_io_def command_unfold reading_def lookup_update
      split: option.splits dest: lookup_Some)

lemma bind_incrementCounter_healthy:
  assumes "faults r = []" and "0 < ttl"
  shows "bind_io (incrementCounter now k ttl) f r =
     f (reading now (kv r) k + 1)
       (r\<lparr>kv := (kv r)(k \<mapsto>
         (case lookup now (kv r) k of
            None \<Rightarrow> \<lparr>val = 1, deadline = Some (now + ttl * 1000)\<rparr>
          | Some x \<Rightarrow> if val x = 0 then x\<lparr>val := 1, deadline := Some (now + ttl * 1000)\<rparr>
                      else x\<lparr>val := val x + 1\<rparr>))\<rparr>)"
  by (simp add: bind_io_def incrementCounter_healthy [OF assms])

section \<open>Keys a computation leaves alone\<close>

lemma keepsD: "keeps k m \<Longrightarrow> m r = (res, r') \<Longrightarrow> kv r' k = kv r k"
  unfolding keeps_def by (metis snd_conv)

lemma keeps_return: "keeps k (return_io a)"
  by (simp add: keeps_def return_io_def)

lemma keeps_bind: "keeps k m \<Longrightarrow> (\<And>a. keeps k (f a)) \<Longrightarrow> keeps k (bind_io m f)"
  by (auto simp add: keeps_def bind_io_def split: prod.splits sum.splits)
     (metis snd_conv)+

lemma keeps_command:
  assumes "\<And>m. snd (f m) k = m k"
  shows "keeps k (command f)"
  using assms by (simp add: keeps_def command_unfold)

lemma keeps_redis_incrby: "k \<noteq> k' \<Longrightarrow> keeps k (redis_incrby now k' n)"
  unfolding redis_incrby_def by (rule keeps_command) (simp split: option.splits)

lemma keeps_getCounter: "keeps k (getCounter now k')"
  by (simp add: keeps_def getCounter_unfold)

lemma keeps_incrementCounter: "k \<noteq> k' \<Longrightarrow> keeps k (incrementCounter now k' ttl)"
  by (simp add: keeps_def incrementCounter_frame)

section \<open>The quota ledger\<close>

subsection \<open>The status read and the decision\<close>

lemma getQuotaStatus_outcome:
  "kv (snd (getQuotaStatus e t userId r)) = kv r \<and>
   (fst (getQuotaStatus e t userId r) = Inl StoreUnavailable \<or>
    fst (getQuotaStatus e t userId r) =
      Inr \<lparr>usage = snapshot t userId (kv r), limits = limits6 e\<rparr>)"
  by (simp add: getQuotaStatus_def bind_io_def getCounter_unfold return_io_def snapshot_def)

lemma getQuotaStatus_healthy:
  "faults r = [] \<Longrightarrow>
   getQuotaStatus e t userId r = (Inr \<lparr>usage = snapshot t userId (kv r), limits = limits6 e\<rparr>, r)"
  by (simp add: getQuotaStatus_def bind_getCounter_healthy return_io_def snapshot_def)

lemma keeps_getQuotaStatus: "keeps k (getQuotaStatus e t userId)"
  by (simp add: keeps_def getQuotaStatus_outcome)

lemma first_failing_cases:
  "first_failing u l n =
     (if rpm u \<ge> rpm l then Some GlobalRpm
      else if rpd u \<ge> rpd l then Some GlobalRpd
      else if tpm u + n > tpm l then Some GlobalTpm
      else if tpd u + n > tpd l then Some GlobalTpd
      else if userRpd u \<ge> userRpd l then Some IdentityRpd
      else if userTpd u + n > userTpd l then Some IdentityTpd
      else None)"
  by (simp add: first_failing_def precedence_def)


text \<open>The admission is the status read followed by the decision.\<close>

lemma checkAndIncrementLimits_split:
  "checkAndIncrementLimits e t userId n =
     bind_io (getQuotaStatus e t userId) (\<lambda>st.
       case first_failing (usage st) (limits6 e) n of
         Some d \<Rightarrow> return_io (rejected e (usage st) (reason_text d))
       | None \<Rightarrow>
           bind_io (incrementCounter (epoch_ms t) (globalRpmKey t) 60) (\<lambda>_.
           bind_io (incrementCounter (epoch_ms t) (globalRpdKey t) 86400) (\<lambda>_.
           bind_io (incrementCounter (epoch_ms t) (userRpdKey userId t) 86400) (\<lambda>_.
             return_io
               \<lparr>usage = \<lparr>rpm = rpm (usage st) + 1, rpd = rpd (usage st) + 1,
                          tpm = tpm (usage st), tpd = tpd (usage st),
                          userRpd = userRpd (usage st) + 1, userTpd = userTpd (usage st)\<rparr>,
                limits = limits6 e, allowed = True, reason = None\<rparr>))))"
  unfolding checkAndIncrementLimits_def getQuotaStatus_def bind_io_assoc bind_io_return
  by (intro arg_cong2 [where f = bind_io] refl ext)
     (simp add: Let_def first_failing_cases limits6_def)



lemma admit_fresh:
  "checkAndIncrementLimits env0 t0 ''u1'' 100 fresh =
     (Inr \<lparr>usage = \<lparr>rpm = 1, rpd = 1, tpm = 0, tpd = 0, userRpd = 1, userTpd = 0\<rparr>,
           limits = \<lparr>rpm = 30, rpd = 14400, tpm = 6000, tpd = 500000, userRpd = 50, userTpd = 20000\<rparr>,
           allowed = True, reason = None\<rparr>,
      \<lparr>kv = [''global:rpm:2024-0-1-10-30'' \<mapsto> \<lparr>val = 1, deadline = Some 1704105060000\<rparr>,
             ''global:rpd:2024-0-1'' \<mapsto> \<lparr>val = 1, deadline = Some 1704191400000\<rparr>,
             ''user:rpd:u1:2024-0-1'' \<mapsto> \<lparr>val = 1, deadline = Some 1704191400000\<rparr>],
        faults = []\<rparr>)"
  by (simp add: checkAndIncrementLimits_def bind_getCounter_healthy
      bind_incrementCounter_healthy keys_t0 fresh_def reading_def lookup_def globalLimits_def
      userLimits_rpd_def userLimits_tpd_def env_or_def env0_def limits6_def return_io_def)



subsection \<open>What an admission writes\<close>

lemma keeps_checkAndIncrementLimits:
  assumes "k \<notin> {globalRpmKey t, globalRpdKey t, userRpdKey userId t}"
  shows "keeps k (checkAndIncrementLimits e t userId n)"
  unfolding checkAndIncrementLimits_split
  using assms
  by (auto intro!: keeps_bind keeps_return keeps_getQuotaStatus keeps_incrementCounter
      split: option.splits)

lemma admitted_effect:
  assumes run: "checkAndIncrementLimits e t userId n r = (Inr a, r')" and ok: "allowed a"
  shows "reading (epoch_ms t) (kv r') (globalRpmKey t) = reading (epoch_ms t) (kv r) (globalRpmKey t) + 1"
    and "reading (epoch_ms t) (kv r') (globalRpdKey t) = reading (epoch_ms t) (kv r) (globalRpdKey t) + 1"
    and "reading (epoch_ms t) (kv r') (userRpdKey userId t) = reading (epoch_ms t) (kv r) (userRpdKey userId t) + 1"
proof -
  let ?now = "epoch_ms t"
  from run obtain st r1 where
    st: "getQuotaStatus e t userId r = (Inr st, r1)" and
    rest: "(case first_failing (usage st) (limits6 e) n of
         Some d \<Rightarrow> return_io (rejected e (usage st) (reason_text d))
       | None \<Rightarrow>
           bind_io (incrementCounter (epoch_ms t) (globalRpmKey t) 60) (\<lambda>_.
           bind_io (incrementCounter (epoch_ms t) (globalRpdKey t) 86400) (\<lambda>_.
           bind_io (incrementCounter (epoch_ms t) (userRpdKey userId t) 86400) (\<lambda>_.
             return_io
               \<lparr>usage = \<lparr>rpm = rpm (usage st) + 1, rpd = rpd (usage st) + 1,
                          tpm = tpm (usage st), tpd = tpd (usage st),
                          userRpd = userRpd (usage st) + 1, userTpd = userTpd (usage st)\<rparr>,
                limits = limits6 e, allowed = True, reason = None\<rparr>)))) r1 = (Inr a, r')"
    unfolding checkAndIncrementLimits_split by (rule bind_io_InrE)
  have kv1: "kv r1 = kv r"
    using getQuotaStatus_outcome [of e t userId r] st by simp
  from rest ok have none: "first_failing (usage st) (limits6 e) n = None"
    by (auto simp add: return_io_def rejected_def split: option.splits)
  from rest none obtain c1 r2 c2 r3 c3 r4 where
    i1: "incrementCounter ?now (globalRpmKey t) 60 r1 = (Inr c1, r2)" and
    i2: "incrementCounter ?now (globalRpdKey t) 86400 r2 = (Inr c2, r3)" and
    i3: "incrementCounter ?now (userRpdKey userId t) 86400 r3 = (Inr c3, r4)" and
    r4: "r4 = r'"
    by (auto simp add: return_io_def elim!: bind_io_InrE)
  have f1: "\<And>k. k \<noteq> globalRpmKey t \<Longrightarrow> kv r2 k = kv r1 k"
    using incrementCounter_frame [of _ "globalRpmKey t" ?now 60 r1] i1 by simp
  have f2: "\<And>k. k \<noteq> globalRpdKey t \<Longrightarrow> kv r3 k = kv r2 k"
    using incrementCounter_frame [of _ "globalRpdKey t" ?now 86400 r2] i2 by simp
  have f3: "\<And>k. k \<noteq> userRpdKey userId t \<Longrightarrow> kv r4 k = kv r3 k"
    using incrementCounter_frame [of _ "userRpdKey userId t" ?now 86400 r3] i3 by simp
  have "reading ?now (kv r4) (globalRpmKey t) = reading ?now (kv r2) (globalRpmKey t)"
    by (rule reading_cong) (simp add: f2 f3 request_keys_distinct)
  then show "reading ?now (kv r') (globalRpmKey t) = reading ?now (kv r) (globalRpmKey t) + 1"
    using incrementCounter_returns [OF i1] by (simp add: r4 kv1)
  have "reading ?now (kv r4) (globalRpdKey t) = reading ?now (kv r3) (globalRpdKey t)"
    by (rule reading_cong) (simp add: f3 request_keys_distinct)
  moreover have "reading ?now (kv r2) (globalRpdKey t) = reading ?now (kv r1) (globalRpdKey t)"
    by (rule reading_cong) (simp add: f1 request_keys_distinct [symmetric])
  ultimately show "reading ?now (kv r') (globalRpdKey t) = reading ?now (kv r) (globalRpdKey t) + 1"
    using incrementCounter_returns [OF i2] by (simp add: r4 kv1)
  have "reading ?now (kv r3) (userRpdKey userId t) = reading ?now (kv r1) (userRpdKey userId t)"
    by (rule reading_cong) (simp add: f1 f2 request_keys_distinct [symmetric])
  then show "reading ?now (kv r') (userRpdKey userId t) = reading ?now (kv r) (userRpdKey userId t) + 1"
    using incrementCounter_returns [OF i3] by (simp add: r4 kv1)
qed

lemma admit_all_keeps:
  assumes "\<And>t u. k \<notin> {globalRpmKey t, globalRpdKey t, userRpdKey u t}"
  shows "kv (admit_all e calls r) k = kv r k"
proof (induction calls arbitrary: r)
  case Nil
  show ?case by simp
next
  case (Cons c calls)
  obtain t u n where c: "c = (t, u, n)" by (cases c)
  have "keeps k (checkAndIncrementLimits e t u n)"
    by (rule keeps_checkAndIncrementLimits) (rule assms)
  then show ?case by (simp add: c Cons.IH keeps_def)
qed

text \<open>
  Claim C2. When \<open>checkAndIncrementLimits\<close> returns \<open>allowed: true\<close>, the usage of global
  requests-per-minute, of global requests-per-day and of the identity's requests-per-day
  each went up by 1, every other key is as before, and so are the three token keys. After
  any sequence of admissions, whatever their outcomes, the tokens-per-day usage of every
  identity is what it was before.
\<close>

theorem admission_increments_request_counters_only:
  "(checkAndIncrementLimits e t userId estimate r = (Inr a, r') \<and> allowed a \<longrightarrow>
      reading (epoch_ms t) (kv r') (globalRpmKey t) = reading (epoch_ms t) (kv r) (globalRpmKey t) + 1
    \<and> reading (epoch_ms t) (kv r') (globalRpdKey t) = reading (epoch_ms t) (kv r) (globalRpdKey t) + 1
    \<and> reading (epoch_ms t) (kv r') (userRpdKey userId t)
        = reading (epoch_ms t) (kv r) (userRpdKey userId t) + 1
    \<and> (\<forall>k. k \<notin> {globalRpmKey t, globalRpdKey t, userRpdKey userId t} \<longrightarrow> kv r' k = kv r k)
    \<and> kv r' (globalTpmKey t) = kv r (globalTpmKey t)
    \<and> kv r' (globalTpdKey t) = kv r (globalTpdKey t)
    \<and> kv r' (userTpdKey userId t) = kv r (userTpdKey userId t))
   \<and> (\<forall>now u t'. reading now (kv (admit_all e calls r)) (userTpdKey u t')
                    = reading now (kv r) (userTpdKey u t'))"
proof (intro conjI impI allI)
  assume h: "checkAndIncrementLimits e t userId estimate r = (Inr a, r') \<and> allowed a"
  then have run: "checkAndIncrementLimits e t userId estimate r = (Inr a, r')" and ok: "allowed a"
    by simp_all
  show "reading (epoch_ms t) (kv r') (globalRpmKey t) = reading (epoch_ms t) (kv r) (globalRpmKey t) + 1"
    by (rule admitted_effect [OF run ok])
  show "reading (epoch_ms t) (kv r') (globalRpdKey t) = reading (epoch_ms t) (kv r) (globalRpdKey t) + 1"
    by (rule admitted_effect [OF run ok])
  show "reading (epoch_ms t) (kv r') (userRpdKey userId t)
        = reading (epoch_ms t) (kv r) (userRpdKey userId t) + 1"
    by (rule admitted_effect [OF run ok])
  have frame: "kv r' k = kv r k" if "k \<notin> {globalRpmKey t, globalRpdKey t, userRpdKey userId t}" for k
    using keeps_checkAndIncrementLimits [OF that, of e estimate] run by (rule keepsD)
  show "kv r' k = kv r k" if "k \<notin> {globalRpmKey t, globalRpdKey t, userRpdKey userId t}" for k
    using that by (rule frame)
  show "kv r' (globalTpmKey t) = kv r (globalTpmKey t)"
    by (rule frame) (rule token_keys_not_request_keys)
  show "kv r' (globalTpdKey t) = kv r (globalTpdKey t)"
    by (rule frame) (rule token_keys_not_request_keys)
  show "kv r' (userTpdKey userId t) = kv r (userTpdKey userId t)"
    by (rule frame) (rule token_keys_not_request_keys)
next
  fix now u t'
  show "reading now (kv (admit_all e calls r)) (userTpdKey u t') = reading now (kv r) (userTpdKey u t')"
    by (rule reading_cong) (rule admit_all_keeps, rule token_keys_not_request_keys)
qed

theorem admission_increments_request_counters_only_witness:
  "\<exists>a r'. checkAndIncrementLimits env0 t0 ''u1'' 100 fresh = (Inr a, r') \<and> allowed a
     \<and> reading (epoch_ms t0) (kv fresh) (globalRpmKey t0) = 0
     \<and> reading (epoch_ms t0) (kv r') (globalRpmKey t0) = 1
     \<and> reading (epoch_ms t0) (kv r') (globalRpdKey t0) = 1
     \<and> reading (epoch_ms t0) (kv r') (userRpdKey ''u1'' t0) = 1
     \<and> kv r' (userTpdKey ''u1'' t0) = None"
proof -
  obtain a r' where run: "checkAndIncrementLimits env0 t0 ''u1'' 100 fresh = (Inr a, r')"
    and ok: "allowed a"
    using admit_fresh by simp
  have z: "reading (epoch_ms t0) (kv fresh) k = 0" "kv fresh k = None" for k
    by (simp_all add: fresh_def reading_def lookup_def)
  from admission_increments_request_counters_only [of env0 t0 "''u1''" 100 fresh a r' "[]"] run ok
  have "reading (epoch_ms t0) (kv r') (globalRpmKey t0) = 1
    \<and> reading (epoch_ms t0) (kv r') (globalRpdKey t0) = 1
    \<and> reading (epoch_ms t0) (kv r') (userRpdKey ''u1'' t0) = 1
    \<and> kv r' (userTpdKey ''u1'' t0) = None"
    by (simp add: z)
  with run ok z show ?thesis by blast
qed

subsection \<open>Store failures\<close>

lemma metered_return: "metered (return_io a)"
  by (simp add: metered_def return_io_def)

lemma metered_command: "metered (command f)"
  unfolding metered_def
proof
  fix r
  show "\<exists>used. faults r = used @ faults (snd (command f r)) \<and>
        (case fst (command f r) of
           Inl err \<Rightarrow> err = StoreUnavailable \<and> used \<noteq> [] \<and> last used \<and> True \<notin> set (butlast used)
         | Inr a \<Rightarrow> True \<notin> set used)"
  proof (cases "faults r")
    case Nil
    then show ?thesis by (intro exI [of _ "[]"]) (simp add: command_def split: prod.splits)
  next
    case (Cons b rest)
    then show ?thesis
      by (intro exI [of _ "[b]"]) (cases b; simp add: command_def split: prod.splits)
  qed
qed

lemma metered_bind:
  assumes m: "metered m" and f: "\<And>a. metered (f a)"
  shows "metered (bind_io m f)"
  unfolding metered_def
proof
  fix r
  from m obtain u1 where u1: "faults r = u1 @ faults (snd (m r))" and
    o1: "case fst (m r) of
           Inl err \<Rightarrow> err = StoreUnavailable \<and> u1 \<noteq> [] \<and> last u1 \<and> True \<notin> set (butlast u1)
         | Inr a \<Rightarrow> True \<notin> set u1"
    unfolding metered_def by blast
  show "\<exists>used. faults r = used @ faults (snd (bind_io m f r)) \<and>
        (case fst (bind_io m f r) of
           Inl err \<Rightarrow> err = StoreUnavailable \<and> used \<noteq> [] \<and> last used \<and> True \<notin> set (butlast used)
         | Inr a \<Rightarrow> True \<notin> set used)"
  proof (cases "fst (m r)")
    case (Inl err)
    then have "bind_io m f r = (Inl err, snd (m r))"
      by (rule bind_io_throws)
    with u1 o1 Inl show ?thesis by (intro exI [of _ u1]) simp
  next
    case (Inr a)
    then have b: "bind_io m f r = f a (snd (m r))"
      by (rule bind_io_continues)
    from f [of a] obtain u2 where u2: "faults (snd (m r)) = u2 @ faults (snd (f a (snd (m r))))" and
      o2: "case fst (f a (snd (m r))) of
           Inl err \<Rightarrow> err = StoreUnavailable \<and> u2 \<noteq> [] \<and> last u2 \<and> True \<notin> set (butlast u2)
         | Inr a \<Rightarrow> True \<notin> set u2"
      unfolding metered_def by blast
    from o1 Inr have clean: "True \<notin> set u1" by simp
    show ?thesis
    proof (intro exI [of _ "u1 @ u2"] conjI)
      show "faults r = (u1 @ u2) @ faults (snd (bind_io m f r))"
        using u1 u2 by (simp add: b)
      show "case fst (bind_io m f r) of
           Inl err \<Rightarrow> err = StoreUnavailable \<and> u1 @ u2 \<noteq> [] \<and> last (u1 @ u2)
              \<and> True \<notin> set (butlast (u1 @ u2))
         | Inr a \<Rightarrow> True \<notin> set (u1 @ u2)"
        using o2 clean by (auto simp add: b butlast_append split: sum.splits)
    qed
  qed
qed

lemma metered_getCounter: "metered (getCounter now k)"
  unfolding getCounter_def redis_get_def
  by (intro metered_bind metered_command metered_return)

lemma metered_incrementCounter: "metered (incrementCounter now k ttl)"
  unfolding incrementCounter_def redis_incr_def redis_incrby_def redis_expire_def
  by (intro metered_bind metered_command) (simp add: metered_bind metered_command metered_return)

lemma metered_checkAndIncrementLimits: "metered (checkAndIncrementLimits e t userId n)"
  unfolding checkAndIncrementLimits_def Let_def
  by (intro metered_bind metered_getCounter)
     (simp add: metered_bind metered_incrementCounter metered_return)

text \<open>
  Claim C3, amended. The admission uses up the fates of exactly the commands it issues. It
  returns a result (allowed or not) only if none of them failed; if one failed, the call
  throws \<open>StoreUnavailable\<close> at that command and returns nothing, so a store failure is
  never taken for available quota.
\<close>

theorem checkAndIncrementLimits_throws_on_store_failure:
  "\<exists>used. faults r = used @ faults (snd (checkAndIncrementLimits e t userId estimate r)) \<and>
     (case fst (checkAndIncrementLimits e t userId estimate r) of
        Inl err \<Rightarrow> err = StoreUnavailable \<and> used \<noteq> [] \<and> last used \<and> True \<notin> set (butlast used)
      | Inr a \<Rightarrow> True \<notin> set used)"
  using metered_checkAndIncrementLimits [of e t userId estimate] unfolding metered_def by blast

theorem checkAndIncrementLimits_store_failure_counterexample:
  "fst (checkAndIncrementLimits env0 t0 ''u1'' 100 \<lparr>kv = Map.empty, faults = [True]\<rparr>)
     = Inl StoreUnavailable
   \<and> fst (checkAndIncrementLimits env0 t0 ''u1'' 100
           \<lparr>kv = Map.empty, faults = [False, False, False, False, False, False, False, False, True]\<rparr>)
     = Inl StoreUnavailable"
  by (simp add: checkAndIncrementLimits_def incrementCounter_def redis_incr_def redis_incrby_def
      redis_expire_def bind_io_def getCounter_unfold command_unfold failing_def next_cmd_def
      keys_t0 reading_def lookup_def globalLimits_def userLimits_rpd_def userLimits_tpd_def
      env_or_def env0_def return_io_def)

subsection \<open>Request counters and their limits\<close>

lemma bounded_incrementCounter:
  assumes b: "bounded e (kv r)"
    and room: "\<And>L. request_limit e k = Some L \<Longrightarrow> reading now (kv r) k < L"
  shows "bounded e (kv (snd (incrementCounter now k ttl r)))"
  unfolding bounded_def
proof (intro allI impI)
  fix k' x L
  let ?r' = "snd (incrementCounter now k ttl r)"
  assume stored: "kv ?r' k' = Some x" and lim: "request_limit e k' = Some L"
  show "val x \<le> L"
  proof (cases "k' = k")
    case False
    then have "kv ?r' k' = kv r k'" by (rule incrementCounter_frame)
    with stored lim b show ?thesis unfolding bounded_def by metis
  next
    case True
    from incrementCounter_key [of now k ttl r]
    show ?thesis
    proof
      assume "kv ?r' k = kv r k"
      with stored lim b True show ?thesis unfolding bounded_def by metis
    next
      assume "\<exists>y. kv ?r' k = Some y \<and> val y = reading now (kv r) k + 1"
      with stored True have "val x = reading now (kv r) k + 1" by auto
      with room [of L] lim True show ?thesis by simp
    qed
  qed
qed

text \<open>The three increments, entered with room under each ceiling.\<close>

lemma bounded_increments:
  assumes b: "bounded e (kv r)"
    and r1: "reading (epoch_ms t) (kv r) (globalRpmKey t) < rpm globalLimits"
    and r2: "reading (epoch_ms t) (kv r) (globalRpdKey t) < rpd globalLimits"
    and r3: "reading (epoch_ms t) (kv r) (userRpdKey u t) < userLimits_rpd e"
  shows "bounded e (kv (snd (
           (bind_io (incrementCounter (epoch_ms t) (globalRpmKey t) 60) (\<lambda>_.
            bind_io (incrementCounter (epoch_ms t) (globalRpdKey t) 86400) (\<lambda>_.
            bind_io (incrementCounter (epoch_ms t) (userRpdKey u t) 86400) (\<lambda>_.
              return_io a)))) r)))"
proof -
  let ?now = "epoch_ms t"
  let ?r1 = "snd (incrementCounter ?now (globalRpmKey t) 60 r)"
  let ?r2 = "snd (incrementCounter ?now (globalRpdKey t) 86400 ?r1)"
  let ?r3 = "snd (incrementCounter ?now (userRpdKey u t) 86400 ?r2)"
  have b1: "bounded e (kv ?r1)"
    by (rule bounded_incrementCounter [OF b]) (use r1 in \<open>simp add: request_limit_keys\<close>)
  have k2: "kv ?r1 (globalRpdKey t) = kv r (globalRpdKey t)"
    by (rule incrementCounter_frame) (simp add: request_keys_distinct [symmetric])
  have k3: "kv ?r1 (userRpdKey u t) = kv r (userRpdKey u t)"
    by (rule incrementCounter_frame) (simp add: request_keys_distinct [symmetric])
  have "reading ?now (kv ?r1) (globalRpdKey t) = reading ?now (kv r) (globalRpdKey t)"
    using k2 by (rule reading_cong)
  with r2 have b2: "bounded e (kv ?r2)"
    by (intro bounded_incrementCounter [OF b1]) (simp add: request_limit_keys)
  have "kv ?r2 (userRpdKey u t) = kv ?r1 (userRpdKey u t)"
    by (rule incrementCounter_frame) (simp add: request_keys_distinct [symmetric])
  with k3 have "reading ?now (kv ?r2) (userRpdKey u t) = reading ?now (kv r) (userRpdKey u t)"
    by (intro reading_cong) simp
  with r3 have b3: "bounded e (kv ?r3)"
    by (intro bounded_incrementCounter [OF b2]) (simp add: request_limit_keys)
  note step = snd_bind_io_cases [where P = "\<lambda>s. bounded e (kv s)"]
  show ?thesis
  proof (rule step)
    show "bounded e (kv ?r1)" by (rule b1)
  next
    show "bounded e (kv (snd (
            (bind_io (incrementCounter ?now (globalRpdKey t) 86400) (\<lambda>_.
             bind_io (incrementCounter ?now (userRpdKey u t) 86400) (\<lambda>_.
               return_io a))) ?r1)))"
    proof (rule step)
      show "bounded e (kv ?r2)" by (rule b2)
    next
      show "bounded e (kv (snd (
              (bind_io (incrementCounter ?now (userRpdKey u t) 86400) (\<lambda>_.
                 return_io a)) ?r2)))"
      proof (rule step)
        show "bounded e (kv ?r3)" by (rule b3)
      next
        show "bounded e (kv (snd (return_io a ?r3)))" by (simp add: return_io_def b3)
      qed
    qed
  qed
qed

lemma bounded_checkAndIncrementLimits:
  assumes b: "bounded e (kv r)"
  shows "bounded e (kv (snd (checkAndIncrementLimits e t u n r)))"
  unfolding checkAndIncrementLimits_split
proof (rule snd_bind_io_cases [where P = "\<lambda>s. bounded e (kv s)"])
  fix err
  show "bounded e (kv (snd (getQuotaStatus e t u r)))"
    using b by (simp add: getQuotaStatus_outcome)
next
  fix st
  let ?r1 = "snd (getQuotaStatus e t u r)"
  assume "fst (getQuotaStatus e t u r) = Inr st"
  with getQuotaStatus_outcome [of e t u r]
  have kv1: "kv ?r1 = kv r" and st: "usage st = snapshot t u (kv r)"
    by auto
  show "bounded e (kv (snd ((case first_failing (usage st) (limits6 e) n of
         Some d \<Rightarrow> return_io (rejected e (usage st) (reason_text d))
       | None \<Rightarrow>
           bind_io (incrementCounter (epoch_ms t) (globalRpmKey t) 60) (\<lambda>_.
           bind_io (incrementCounter (epoch_ms t) (globalRpdKey t) 86400) (\<lambda>_.
           bind_io (incrementCounter (epoch_ms t) (userRpdKey u t) 86400) (\<lambda>_.
             return_io
               \<lparr>usage = \<lparr>rpm = rpm (usage st) + 1, rpd = rpd (usage st) + 1,
                          tpm = tpm (usage st), tpd = tpd (usage st),
                          userRpd = userRpd (usage st) + 1, userTpd = userTpd (usage st)\<rparr>,
                limits = limits6 e, allowed = True, reason = None\<rparr>)))) ?r1)))"
  proof (cases "first_failing (usage st) (limits6 e) n")
    case (Some d)
    then show ?thesis using b kv1 by (simp add: return_io_def)
  next
    case None
    then have "reading (epoch_ms t) (kv ?r1) (globalRpmKey t) < rpm globalLimits"
      and "reading (epoch_ms t) (kv ?r1) (globalRpdKey t) < rpd globalLimits"
      and "reading (epoch_ms t) (kv ?r1) (userRpdKey u t) < userLimits_rpd e"
      by (simp_all add: first_failing_cases st kv1 snapshot_def limits6_def split: if_splits)
    then show ?thesis
      using b kv1 by (simp add: None bounded_increments)
  qed
qed

lemma bounded_admit_all: "bounded e (kv r) \<Longrightarrow> bounded e (kv (admit_all e calls r))"
proof (induction calls arbitrary: r)
  case Nil
  then show ?case by simp
next
  case (Cons c calls)
  obtain t u n where c: "c = (t, u, n)" by (cases c)
  show ?case
    using Cons.prems by (simp add: c Cons.IH bounded_checkAndIncrementLimits)
qed

text \<open>
  Claim C7. Start from an empty store and run any sequence of admissions, one after the
  other, for any identities, instants and estimates, under any pattern of store failures.
  Then every stored request-count counter (a key \<open>global:rpm:...\<close>, \<open>global:rpd:...\<close> or
  \<open>user:rpd:...\<close>) holds at most its limit.
\<close>

theorem request_counters_stay_within_limits:
  assumes "kv (admit_all e calls \<lparr>kv = Map.empty, faults = fs\<rparr>) k = Some x"
    and "request_limit e k = Some L"
  shows "val x \<le> L"
proof -
  have "bounded e (kv \<lparr>kv = Map.empty, faults = fs\<rparr>)"
    by (simp add: bounded_def)
  then have "bounded e (kv (admit_all e calls \<lparr>kv = Map.empty, faults = fs\<rparr>))"
    by (rule bounded_admit_all)
  with assms show ?thesis unfolding bounded_def by blast
qed

theorem request_counters_stay_within_limits_witness:
  "kv (admit_all env_rpd1 [(t0, ''u1'', 10), (t0, ''u1'', 10)] \<lparr>kv = Map.empty, faults = []\<rparr>)
      ''user:rpd:u1:2024-0-1'' = Some \<lparr>val = 1, deadline = Some 1704191400000\<rparr>
   \<and> request_limit env_rpd1 ''user:rpd:u1:2024-0-1'' = Some 1
   \<and> val \<lparr>val = 1, deadline = Some 1704191400000\<rparr> \<le> 1"
proof -
  have 1: "kv (admit_all env_rpd1 [(t0, ''u1'', 10), (t0, ''u1'', 10)] \<lparr>kv = Map.empty, faults = []\<rparr>)
      ''user:rpd:u1:2024-0-1'' = Some \<lparr>val = 1, deadline = Some 1704191400000\<rparr>"
    by (simp add: checkAndIncrementLimits_def bind_getCounter_healthy
      bind_incrementCounter_healthy keys_t0 reading_def lookup_def globalLimits_def
      userLimits_rpd_def userLimits_tpd_def env_or_def env0_def env_rpd1_def limits6_def
      return_io_def rejected_def)
  have 2: "request_limit env_rpd1 ''user:rpd:u1:2024-0-1'' = Some 1"
    by (simp add: request_limit_def userLimits_rpd_def env_or_def env0_def env_rpd1_def)
  from request_counters_stay_within_limits [OF 1 2] 1 2 show ?thesis by simp
qed

section \<open>The usage reconciler\<close>

lemma recordActualTokenUsage_healthy:
  assumes "faults r = []"
  shows "recordActualTokenUsage t userId n r =
     (Inr \<lparr>success = True, failure = None\<rparr>,
      r\<lparr>kv := (kv r)
        (globalTpmKey t \<mapsto> \<lparr>val = reading (epoch_ms t) (kv r) (globalTpmKey t) + n,
                             deadline = Some (epoch_ms t + 60 * 1000)\<rparr>,
         globalTpdKey t \<mapsto> \<lparr>val = reading (epoch_ms t) (kv r) (globalTpdKey t) + n,
                             deadline = Some (epoch_ms t + 86400 * 1000)\<rparr>,
         userTpdKey userId t \<mapsto> \<lparr>val = reading (epoch_ms t) (kv r) (userTpdKey userId t) + n,
                             deadline = Some (epoch_ms t + 86400 * 1000)\<rparr>)\<rparr>)"
proof -
  have same: "m(k1 \<mapsto> a, k2 \<mapsto> b, k3 \<mapsto> c, k1 \<mapsto> a', k2 \<mapsto> b', k3 \<mapsto> c')
      = m(k1 \<mapsto> a', k2 \<mapsto> b', k3 \<mapsto> c')" for m :: keyspace and k1 k2 k3 a b c a' b' c'
    by (rule ext) simp
  show ?thesis
    using assms
    by (simp add: recordActualTokenUsage_def catch_io_def bind_incrby_healthy bind_expire_healthy
      lookup_update_other lookup_update_carried reading_update_other carried_update_other
      token_keys_distinct return_io_def same)
qed

text \<open>
  Claim C6. On a healthy store \<open>recordActualTokenUsage\<close> returns \<open>success: true\<close>; the
  global tokens-per-minute key holds its former usage plus \<open>actualTokens\<close> and expires 60
  seconds from now; the global tokens-per-day key and the identity's tokens-per-day key
  hold their former usage plus \<open>actualTokens\<close> and expire 86400 seconds from now; every
  other key is as before. Recording 87 tokens for \<open>u1\<close> on an empty store makes the
  identity's tokens-per-day usage 87.
\<close>

theorem recordActualTokenUsage_effect:
  assumes "faults r = []"
  shows "fst (recordActualTokenUsage t userId actualTokens r) = Inr \<lparr>success = True, failure = None\<rparr>
    \<and> kv (snd (recordActualTokenUsage t userId actualTokens r)) (globalTpmKey t) =
        Some \<lparr>val = reading (epoch_ms t) (kv r) (globalTpmKey t) + actualTokens,
              deadline = Some (epoch_ms t + 60 * 1000)\<rparr>
    \<and> kv (snd (recordActualTokenUsage t userId actualTokens r)) (globalTpdKey t) =
        Some \<lparr>val = reading (epoch_ms t) (kv r) (globalTpdKey t) + actualTokens,
              deadline = Some (epoch_ms t + 86400 * 1000)\<rparr>
    \<and> kv (snd (recordActualTokenUsage t userId actualTokens r)) (userTpdKey userId t) =
        Some \<lparr>val = reading (epoch_ms t) (kv r) (userTpdKey userId t) + actualTokens,
              deadline = Some (epoch_ms t + 86400 * 1000)\<rparr>
    \<and> (\<forall>k. k \<notin> {globalTpmKey t, globalTpdKey t, userTpdKey userId t} \<longrightarrow>
          kv (snd (recordActualTokenUsage t userId actualTokens r)) k = kv r k)
    \<and> reading (epoch_ms t) (kv (snd (recordActualTokenUsage t ''u1'' 87 fresh))) (userTpdKey ''u1'' t)
        = 87"
proof -
  have f: "faults fresh = []" and z: "reading (epoch_ms t) (kv fresh) (userTpdKey ''u1'' t) = 0"
    by (simp_all add: fresh_def reading_def lookup_def)
  have "reading (epoch_ms t) (kv (snd (recordActualTokenUsage t ''u1'' 87 fresh))) (userTpdKey ''u1'' t)
        = 87"
    by (simp add: recordActualTokenUsage_healthy [OF f] z reading_update_same)
  then show ?thesis
    by (simp add: recordActualTokenUsage_healthy [OF assms] token_keys_distinct)
qed

theorem recordActualTokenUsage_effect_witness:
  "faults fresh = []
   \<and> fst (recordActualTokenUsage t0 ''u1'' 87 fresh) = Inr \<lparr>success = True, failure = None\<rparr>
   \<and> kv (snd (recordActualTokenUsage t0 ''u1'' 87 fresh)) ''global:tpm:2024-0-1-10-30'' =
        Some \<lparr>val = 87, deadline = Some 1704105060000\<rparr>
   \<and> kv (snd (recordActualTokenUsage t0 ''u1'' 87 fresh)) ''global:tpd:2024-0-1'' =
        Some \<lparr>val = 87, deadline = Some 1704191400000\<rparr>
   \<and> kv (snd (recordActualTokenUsage t0 ''u1'' 87 fresh)) ''user:tpd:u1:2024-0-1'' =
        Some \<lparr>val = 87, deadline = Some 1704191400000\<rparr>
   \<and> kv (snd (recordActualTokenUsage t0 ''u1'' 87 fresh)) ''user:rpd:u1:2024-0-1'' = None"
proof -
  have h: "faults fresh = []" by (simp add: fresh_def)
  have z: "reading now (kv fresh) k = 0" "kv fresh k = None" for now k
    by (simp_all add: fresh_def reading_def lookup_def)
  note T = recordActualTokenUsage_effect [OF h, of t0 "''u1''" 87]
  have n: "''user:rpd:u1:2024-0-1'' \<notin> {globalTpmKey t0, globalTpdKey t0, userTpdKey ''u1'' t0}"
    by (simp add: keys_t0)
  note F = T [THEN conjunct2, THEN conjunct2, THEN conjunct2, THEN conjunct2, THEN conjunct1,
      THEN spec, THEN mp, OF n]
  from T F h show ?thesis by (simp add: z keys_t0)
qed

section \<open>The model selector\<close>

lemma selectModel_healthy:
  assumes "faults (store p) = []"
  shows "selectModel e t userId preferredModel p =
     (if holding (fallbackModeUntil p) (epoch_ms t) then (Inr MODELS_fallback, p)
      else if tpdFraction t (kv (store p)) > FALLBACK_THRESHOLD e
              \<or> rpmFraction t (kv (store p)) > FALLBACK_THRESHOLD e
      then (Inr MODELS_fallback, p\<lparr>fallbackModeUntil := Some (epoch_ms t + FALLBACK_DURATION_MS)\<rparr>)
      else (Inr (preferred_or_default preferredModel),
            if tpdFraction t (kv (store p)) < 1 / 2 \<and> rpmFraction t (kv (store p)) < 1 / 2
            then p\<lparr>fallbackModeUntil := None\<rparr> else p))"
  by (simp add: selectModel_def getQuotaStatus_healthy [OF assms] Let_def tpdFraction_def
      rpmFraction_def snapshot_def limits6_def globalLimits_def)



lemma selectModel_holds:
  assumes "faults (store p) = []" and "holding (fallbackModeUntil p) (epoch_ms t)"
  shows "selectModel e t userId preferredModel p = (Inr MODELS_fallback, p)"
  using assms(2) by (simp add: selectModel_healthy [OF assms(1)])

text \<open>
  Claim C4, where the code departs from it. At 10:30:00 the requests-per-minute fraction
  is 22/30 and \<open>selectModel\<close> trips into fallback until 10:35:00. At 10:35:01, with the
  tokens-per-day fraction at 11/20 and the requests-per-minute fraction at 8/15, neither
  below the recovery threshold 1/2, \<open>selectModel\<close> returns the primary model.
\<close>

theorem selectModel_leaves_fallback_without_recovery:
  "selectModel env0 t0 ''u1'' None \<lparr>store = store_1030, fallbackModeUntil = None\<rparr> =
     (Inr ''compound-mini'', \<lparr>store = store_1030, fallbackModeUntil = Some 1704105300000\<rparr>)
   \<and> epoch_ms t5 = 1704105301000
   \<and> tpdFraction t5 (kv store_1035) = 11 / 20 \<and> rpmFraction t5 (kv store_1035) = 8 / 15
   \<and> selectModel env0 t5 ''u1'' None \<lparr>store = store_1035, fallbackModeUntil = Some 1704105300000\<rparr> =
       (Inr ''llama-3.1-8b-instant'', \<lparr>store = store_1035, fallbackModeUntil = Some 1704105300000\<rparr>)"
proof -
  have f0: "tpdFraction t0 (kv store_1030) = 11 / 20" "rpmFraction t0 (kv store_1030) = 11 / 15"
    by (simp_all add: tpdFraction_def rpmFraction_def store_1030_def keys_t0 reading_def lookup_def
        counter_def)
  have f5: "tpdFraction t5 (kv store_1035) = 11 / 20" "rpmFraction t5 (kv store_1035) = 8 / 15"
    by (simp_all add: tpdFraction_def rpmFraction_def store_1035_def keys_t5 reading_def lookup_def
        counter_def)
  have th: "FALLBACK_THRESHOLD env0 = 7 / 10"
    by (simp add: FALLBACK_THRESHOLD_def env_or_def env0_def)
  have h0: "faults (store \<lparr>store = store_1030, fallbackModeUntil = None\<rparr>) = []"
    by (simp add: store_1030_def)
  have h5: "faults (store \<lparr>store = store_1035, fallbackModeUntil = Some 1704105300000\<rparr>) = []"
    by (simp add: store_1035_def)
  show ?thesis
    by (simp add: selectModel_healthy [OF h0] selectModel_healthy [OF h5] f0 f5 th holding_def
        keys_t0 keys_t5 FALLBACK_DURATION_MS_def MODELS_fallback_def MODELS_default_def
        preferred_or_default_def)
qed

section \<open>Ad rewards and the ledger\<close>

lemma rewardKey_in_reward_keys:
  "rewardKey t userId rewardType = Some key \<Longrightarrow> key \<in> reward_keys t userId"
  by (auto simp add: rewardKey_def reward_keys_def split: if_splits)

lemma keeps_incrementRewardQuota:
  assumes "k \<notin> reward_keys t userId"
  shows "keeps k (incrementRewardQuota e t userId md rewardType amount)"
proof (cases "rewardKey t userId rewardType")
  case None
  then show ?thesis by (simp add: incrementRewardQuota_def keeps_return)
next
  case (Some key)
  with assms have "k \<noteq> key" using rewardKey_in_reward_keys by blast
  then show ?thesis
    unfolding incrementRewardQuota_def Some option.case
    by (intro keeps_bind keeps_redis_incrby keeps_getCounter keeps_return)
qed

lemma reward_keys_are_reward_keys: "k \<in> reward_keys t userId \<Longrightarrow> reward_key k"
  by (auto simp add: reward_keys_def reward_key_def)

lemma ledger_reward_disjoint: "ledger_keys t' u' \<inter> reward_keys t u = {}"
proof -
  have "\<not> reward_key k" if "k \<in> ledger_keys t' u'" for k
    using that by (auto simp add: ledger_keys_def ledger_keys_not_reward)
  then show ?thesis using reward_keys_are_reward_keys by blast
qed

lemma reward_all_ledger:
  assumes "\<not> reward_key k"
  shows "kv (reward_all e rewards r) k = kv r k"
proof (induction rewards arbitrary: r)
  case Nil
  show ?case by simp
next
  case (Cons c rewards)
  obtain t u md rt amt where c: "c = (t, u, md, rt, amt)" by (cases c)
  have "k \<notin> reward_keys t u" using assms reward_keys_are_reward_keys by blast
  then have "keeps k (incrementRewardQuota e t u md rt amt)"
    by (rule keeps_incrementRewardQuota)
  then show ?case by (simp add: c Cons.IH keeps_def)
qed

lemma blind_return: "blind (return_io a)"
  by (simp add: blind_def return_io_def)

lemma blind_bind:
  assumes m: "blind m" and f: "\<And>a. blind (f a)"
  shows "blind (bind_io m f)"
  unfolding blind_def
proof (intro allI impI)
  fix r1 r2
  assume s: "same_ledger r1 r2"
  with m have eq: "fst (m r1) = fst (m r2)" and s': "same_ledger (snd (m r1)) (snd (m r2))"
    unfolding blind_def by blast+
  show "fst (bind_io m f r1) = fst (bind_io m f r2) \<and>
        same_ledger (snd (bind_io m f r1)) (snd (bind_io m f r2))"
  proof (cases "fst (m r1)")
    case (Inl err)
    with eq have "fst (m r2) = Inl err" by simp
    with Inl s' show ?thesis by (simp add: bind_io_throws)
  next
    case (Inr a)
    with eq have "fst (m r2) = Inr a" by simp
    with Inr f [of a] s' show ?thesis
      unfolding blind_def by (simp add: bind_io_continues)
  qed
qed

lemma blind_command:
  assumes "\<And>m1 m2. (\<forall>k. \<not> reward_key k \<longrightarrow> m1 k = m2 k) \<Longrightarrow>
             fst (f m1) = fst (f m2) \<and> (\<forall>k. \<not> reward_key k \<longrightarrow> snd (f m1) k = snd (f m2) k)"
  shows "blind (command f)"
  unfolding blind_def
proof (intro allI impI)
  fix r1 r2
  assume s: "same_ledger r1 r2"
  then have fl: "failing r1 = failing r2" "tl (faults r1) = tl (faults r2)"
    by (simp_all add: same_ledger_def failing_def)
  from s assms [of "kv r1" "kv r2"] have
    "fst (f (kv r1)) = fst (f (kv r2))"
    "\<forall>k. \<not> reward_key k \<longrightarrow> snd (f (kv r1)) k = snd (f (kv r2)) k"
    by (simp_all add: same_ledger_def)
  with s fl show "fst (command f r1) = fst (command f r2) \<and>
        same_ledger (snd (command f r1)) (snd (command f r2))"
    by (simp add: command_unfold same_ledger_def)
qed

lemma blind_redis_get: "\<not> reward_key k \<Longrightarrow> blind (redis_get now k)"
  unfolding redis_get_def
  by (rule blind_command) (simp add: lookup_def)

lemma blind_redis_incrby: "\<not> reward_key k \<Longrightarrow> blind (redis_incrby now k n)"
  unfolding redis_incrby_def
  by (rule blind_command) (simp add: lookup_def split: option.splits)

lemma blind_redis_expire: "\<not> reward_key k \<Longrightarrow> blind (redis_expire now k ttl)"
  unfolding redis_expire_def
  by (rule blind_command) (simp add: lookup_def split: option.splits)

lemma blind_getCounter: "\<not> reward_key k \<Longrightarrow> blind (getCounter now k)"
  unfolding getCounter_def
  by (intro blind_bind blind_redis_get blind_return)

lemma blind_incrementCounter: "\<not> reward_key k \<Longrightarrow> blind (incrementCounter now k ttl)"
  unfolding incrementCounter_def redis_incr_def
  by (intro blind_bind blind_redis_incrby)
     (simp_all add: blind_bind blind_redis_expire blind_return)

lemma blind_getQuotaStatus: "blind (getQuotaStatus e t userId)"
  unfolding getQuotaStatus_def
  by (intro blind_bind blind_getCounter blind_return ledger_keys_not_reward)

lemma blind_checkAndIncrementLimits: "blind (checkAndIncrementLimits e t userId n)"
  unfolding checkAndIncrementLimits_split
  by (intro blind_bind blind_getQuotaStatus)
     (simp add: blind_bind blind_incrementCounter blind_return ledger_keys_not_reward
        split: option.splits)

lemma ask_same_ledger: "same_ledger r1 r2 \<Longrightarrow> ask e qs r1 = ask e qs r2"
proof (induction qs arbitrary: r1 r2)
  case Nil
  show ?case by simp
next
  case (Cons q qs)
  show ?case
  proof (cases q)
    case (Admit t u n)
    from blind_checkAndIncrementLimits [of e t u n] Cons.prems
    have "fst (checkAndIncrementLimits e t u n r1) = fst (checkAndIncrementLimits e t u n r2)"
      and "same_ledger (snd (checkAndIncrementLimits e t u n r1))
                       (snd (checkAndIncrementLimits e t u n r2))"
      unfolding blind_def by blast+
    then show ?thesis
      using Cons.IH by (simp add: Admit case_prod_beta)
  next
    case (Status t u)
    from blind_getQuotaStatus [of e t u] Cons.prems
    have "fst (getQuotaStatus e t u r1) = fst (getQuotaStatus e t u r2)"
      and "same_ledger (snd (getQuotaStatus e t u r1)) (snd (getQuotaStatus e t u r2))"
      unfolding blind_def by blast+
    then show ?thesis
      using Cons.IH by (simp add: Status case_prod_beta)
  qed
qed

text \<open>
  Claim C10. \<open>incrementRewardQuota\<close> changes no key other than \<open>rpd:{userId}:{day}\<close> and
  \<open>tpd:{userId}:{day}\<close>, whatever its outcome; these two are none of the six keys an
  admission or a status call uses, for any identities and instants. After any sequence of
  reward calls, every sequence of admission and status calls gives the answers (thrown
  errors, \<open>allowed\<close>, \<open>reason\<close>, usage and limits) it gives without the reward calls,
  under the same store failures.
\<close>

theorem rewards_do_not_reach_the_ledger:
  "(\<forall>k. k \<notin> reward_keys t userId \<longrightarrow>
        kv (snd (incrementRewardQuota e t userId module' rewardType amount r)) k = kv r k)
   \<and> ledger_keys t' userId' \<inter> reward_keys t userId = {}
   \<and> ask e qs ((reward_all e rewards r)\<lparr>faults := fs\<rparr>) = ask e qs (r\<lparr>faults := fs\<rparr>)"
proof (intro conjI allI impI)
  fix k
  assume "k \<notin> reward_keys t userId"
  then have "keeps k (incrementRewardQuota e t userId module' rewardType amount)"
    by (rule keeps_incrementRewardQuota)
  then show "kv (snd (incrementRewardQuota e t userId module' rewardType amount r)) k = kv r k"
    by (simp add: keeps_def)
next
  show "ledger_keys t' userId' \<inter> reward_keys t userId = {}"
    by (rule ledger_reward_disjoint)
next
  have "same_ledger ((reward_all e rewards r)\<lparr>faults := fs\<rparr>) (r\<lparr>faults := fs\<rparr>)"
    by (simp add: same_ledger_def reward_all_ledger)
  then show "ask e qs ((reward_all e rewards r)\<lparr>faults := fs\<rparr>) = ask e qs (r\<lparr>faults := fs\<rparr>)"
    by (rule ask_same_ledger)
qed

lemma reward_fresh:
  "kv (snd (incrementRewardQuota env0 t0 ''u1'' ''pdf'' ''requests'' 5 fresh)) ''rpd:u1:2024-0-1''
     = Some \<lparr>val = 5, deadline = None\<rparr>"
  by (simp add: incrementRewardQuota_def rewardKey_def bind_incrby_healthy
      bind_getCounter_healthy return_io_def day_def t0_def show_nat.simps fresh_def reading_def
      lookup_def carried_def)

theorem rewards_do_not_reach_the_ledger_witness:
  "''user:rpd:u1:2024-0-1'' \<notin> reward_keys t0 ''u1''
   \<and> kv (snd (incrementRewardQuota env0 t0 ''u1'' ''pdf'' ''requests'' 5 fresh)) ''user:rpd:u1:2024-0-1''
       = None
   \<and> kv (snd (incrementRewardQuota env0 t0 ''u1'' ''pdf'' ''requests'' 5 fresh)) ''rpd:u1:2024-0-1''
       = Some \<lparr>val = 5, deadline = None\<rparr>
   \<and> ask env0 [Admit t0 ''u1'' 100]
        ((reward_all env0 [(t0, ''u1'', ''pdf'', ''requests'', 5)] fresh)\<lparr>faults := []\<rparr>) =
       [Admission (Inr \<lparr>usage = \<lparr>rpm = 1, rpd = 1, tpm = 0, tpd = 0, userRpd = 1, userTpd = 0\<rparr>,
           limits = \<lparr>rpm = 30, rpd = 14400, tpm = 6000, tpd = 500000, userRpd = 50, userTpd = 20000\<rparr>,
           allowed = True, reason = None\<rparr>)]"
proof -
  have n: "''user:rpd:u1:2024-0-1'' \<notin> reward_keys t0 ''u1''"
    by (simp add: reward_keys_def)
  note T = rewards_do_not_reach_the_ledger [where t = t0 and userId = "''u1''" and e = env0
      and module' = "''pdf''" and rewardType = "''requests''" and amount = 5 and r = fresh
      and t' = t0 and userId' = "''u1''" and qs = "[Admit t0 ''u1'' 100]"
      and rewards = "[(t0, ''u1'', ''pdf'', ''requests'', 5)]" and fs = "[]"]
  note F = T [THEN conjunct1, THEN spec, THEN mp, OF n]
  note A = T [THEN conjunct2, THEN conjunct2]
  have f: "fresh\<lparr>faults := []\<rparr> = fresh" "kv fresh k = None" for k
    by (simp_all add: fresh_def)
  have "ask env0 [Admit t0 ''u1'' 100] fresh =
       [Admission (Inr \<lparr>usage = \<lparr>rpm = 1, rpd = 1, tpm = 0, tpd = 0, userRpd = 1, userTpd = 0\<rparr>,
           limits = \<lparr>rpm = 30, rpd = 14400, tpm = 6000, tpd = 500000, userRpd = 50, userTpd = 20000\<rparr>,
           allowed = True, reason = None\<rparr>)]"
    by (simp add: admit_fresh)
  with A F n reward_fresh show ?thesis by (simp add: f del: reward_all.simps)
qed

end
